theory Spec2Isabelle
  imports Complex_Main
begin

section \<open>The PDF text model of \<^verbatim>\<open>app/pdf_processing.py\<close>\<close>

text \<open>
  The module has two operations, \<^verbatim>\<open>extract_text_from_pdf\<close> and
  \<^verbatim>\<open>apply_text_edits_to_pdf\<close>, built on the PyMuPDF primitives
  \<^verbatim>\<open>fitz.open\<close>, \<^verbatim>\<open>page.get_text("dict")\<close>,
  \<^verbatim>\<open>page.add_redact_annot\<close>, \<^verbatim>\<open>page.apply_redactions\<close>,
  \<^verbatim>\<open>page.insert_text\<close> and \<^verbatim>\<open>doc.save\<close>.

  Numbers (coordinates, font sizes) are Python floats in the source; here they are
  idealised as reals, and the only arithmetic the module does on them is the
  subtraction \<^verbatim>\<open>bbox[3] - 1\<close>.
\<close>

type_synonym num = real

subsection \<open>What \<^verbatim>\<open>page.get_text("dict")\<close> returns\<close>

text \<open>
  Every level is a Python dict read with \<^verbatim>\<open>.get\<close>; a key that may be missing is
  an \<open>option\<close> field (\<open>None\<close>: the key is absent).
\<close>

record span =
  s_text :: "string option"
  s_bbox :: "num list option"
  s_font :: "string option"
  s_size :: "num option"
  s_color :: "int option"

record line =
  l_spans :: "span list option"

record block =
  b_type :: "int option"
  b_lines :: "line list option"

record page_dict =
  pd_blocks :: "block list option"

text \<open>
  The content of a document is the list of the texts of its pages: when
  \<^verbatim>\<open>len(doc)\<close> returns, it returns the length of the list, and when
  \<^verbatim>\<open>doc[i].get_text("dict")\<close> returns, it returns the \<open>i\<close>-th element. Both
  operations read a page's text before they change anything on that page. Whether
  these reads return or raise is a parameter of the model (see the library below).
\<close>

type_synonym document = "page_dict list"

text \<open>\<^verbatim>\<open>d.get(key, default)\<close>\<close>

definition get_or :: "'a option \<Rightarrow> 'a \<Rightarrow> 'a" where
  "get_or v d = (case v of None \<Rightarrow> d | Some x \<Rightarrow> x)"

subsection \<open>The extracted fragment (\<^verbatim>\<open>span_info\<close>, lines 62-68)\<close>

record fragment =
  f_text :: string
  f_bbox :: "num list"
  f_font :: string
  f_size :: num
  f_color :: int

definition span_info :: "span \<Rightarrow> fragment" where
  "span_info sp =
     \<lparr>f_text = get_or (s_text sp) [],
      f_bbox = get_or (s_bbox sp) [],
      f_font = get_or (s_font sp) [],
      f_size = get_or (s_size sp) 0,
      f_color = get_or (s_color sp) 0\<rparr>"

subsection \<open>The two traversals\<close>

text \<open>
  Lines 56-69 of \<^verbatim>\<open>extract_text_from_pdf\<close>: three nested \<^verbatim>\<open>for\<close> loops
  appending to \<^verbatim>\<open>page_spans\<close>. Each loop is a left fold whose accumulator is the
  list being appended to.
\<close>

definition extract_line :: "fragment list \<Rightarrow> line \<Rightarrow> fragment list" where
  "extract_line page_spans li =
     foldl (\<lambda>acc sp. acc @ [span_info sp]) page_spans (get_or (l_spans li) [])"

definition extract_block :: "fragment list \<Rightarrow> block \<Rightarrow> fragment list" where
  "extract_block page_spans b =
     (if b_type b \<noteq> Some 0 then page_spans
      else foldl extract_line page_spans (get_or (b_lines b) []))"

definition extract_page :: "page_dict \<Rightarrow> fragment list" where
  "extract_page pd = foldl extract_block [] (get_or (pd_blocks pd) [])"

text \<open>
  Lines 116-122 of \<^verbatim>\<open>apply_text_edits_to_pdf\<close>: the same loops, appending the
  span dict itself to \<^verbatim>\<open>spans\<close>.
\<close>

definition rederive_line :: "span list \<Rightarrow> line \<Rightarrow> span list" where
  "rederive_line spans li =
     foldl (\<lambda>acc sp. acc @ [sp]) spans (get_or (l_spans li) [])"

definition rederive_block :: "span list \<Rightarrow> block \<Rightarrow> span list" where
  "rederive_block spans b =
     (if b_type b \<noteq> Some 0 then spans
      else foldl rederive_line spans (get_or (b_lines b) []))"

definition rederive_spans :: "page_dict \<Rightarrow> span list" where
  "rederive_spans pd = foldl rederive_block [] (get_or (pd_blocks pd) [])"

subsection \<open>Python's \<^verbatim>\<open>str(n)\<close> and \<^verbatim>\<open>int(s)\<close>\<close>

text \<open>
  A \<open>char\<close> stands for a code point below 256. \<^verbatim>\<open>str(page_number)\<close> is the
  canonical decimal numeral of a natural number.
\<close>

definition digit_char :: "nat \<Rightarrow> char" where
  "digit_char d = char_of (48 + d)"

function str_nat :: "nat \<Rightarrow> string" where
  "str_nat n = (if n < 10 then [digit_char n] else str_nat (n div 10) @ [digit_char (n mod 10)])"
  by pat_completeness auto
termination
  by (relation "measure id") auto

declare str_nat.simps [simp del]

text \<open>
  \<^verbatim>\<open>int(s)\<close> on a string, base 10, as the interpreter parses it: white space around
  is skipped (tab to carriage return, space, and of the other code points below 256 the
  next-line and no-break space characters), one sign is allowed, then decimal digits
  with single underscores between digits; anything else is a \<^verbatim>\<open>ValueError\<close>
  (\<open>None\<close> here). The interpreter
  also refuses a literal of more than \<^verbatim>\<open>sys.get_int_max_str_digits()\<close> digits when
  that limit is set (it is 4300 by default since Python 3.11, and 0 means no limit);
  the limit is a parameter of the model.
\<close>

definition is_space :: "char \<Rightarrow> bool" where
  "is_space c =
     (let n = (of_char c :: nat)
      in (9 \<le> n \<and> n \<le> 13) \<or> n = 32 \<or> n = 133 \<or> n = 160)"

definition is_digit :: "char \<Rightarrow> bool" where
  "is_digit c = (let n = (of_char c :: nat) in 48 \<le> n \<and> n \<le> 57)"

definition digit_val :: "char \<Rightarrow> nat" where
  "digit_val c = of_char c - 48"

fun scan_digits :: "string \<Rightarrow> nat list option" where
  "scan_digits [] = None"
| "scan_digits [c] = (if is_digit c then Some [digit_val c] else None)"
| "scan_digits (c # d # cs) =
     (if is_digit c
      then map_option (\<lambda>ds. digit_val c # ds)
             (if d = CHR ''_'' then scan_digits cs else scan_digits (d # cs))
      else None)"

definition int_literal :: "string \<Rightarrow> (bool \<times> nat list) option" where
  "int_literal s =
     (let s1 = dropWhile is_space s;
          negative = (case s1 of [] \<Rightarrow> False | c # _ \<Rightarrow> c = CHR ''-'');
          s2 = (case s1 of [] \<Rightarrow> [] | c # r \<Rightarrow> if c = CHR ''+'' \<or> c = CHR ''-'' then r else s1);
          body = rev (dropWhile is_space (rev s2))
      in map_option (\<lambda>ds. (negative, ds)) (scan_digits body))"

definition digits_value :: "nat list \<Rightarrow> nat" where
  "digits_value ds = foldl (\<lambda>a d. 10 * a + d) 0 ds"

definition py_int :: "nat \<Rightarrow> string \<Rightarrow> int option" where
  "py_int max_str_digits s =
     (case int_literal s of
        None \<Rightarrow> None
      | Some (negative, ds) \<Rightarrow>
          if 640 < length ds \<and> 0 < max_str_digits \<and> max_str_digits < length ds then None
          else Some (if negative then - int (digits_value ds) else int (digits_value ds)))"

subsection \<open>JSON values\<close>

text \<open>
  What \<^verbatim>\<open>json.loads\<close> returns: \<^verbatim>\<open>None\<close>, a bool, an int, a float, a string,
  a list, or a dict with string keys (an association list in insertion order, with
  distinct keys). \<^verbatim>\<open>routes.py\<close> passes the loaded value of the \<^verbatim>\<open>edits\<close> form
  field to \<^verbatim>\<open>apply_text_edits_to_pdf\<close> without any check.
\<close>

datatype json =
    JNull
  | JBool bool
  | JInt int
  | JNum num
  | JStr string
  | JArr "json list"
  | JObj "(string \<times> json) list"

text \<open>
  \<^verbatim>\<open>key in value\<close> for a string key (line 111): membership among the keys of a
  dict, among the elements of a list, as a substring of a string; every other value
  raises \<^verbatim>\<open>TypeError\<close> (\<open>None\<close>).
\<close>

definition is_substring :: "string \<Rightarrow> string \<Rightarrow> bool" where
  "is_substring k s = list_ex (\<lambda>i. take (length k) (drop i s) = k) [0..<Suc (length s)]"

fun py_contains :: "json \<Rightarrow> string \<Rightarrow> bool option" where
  "py_contains (JObj kvs) k = Some (map_of kvs k \<noteq> None)"
| "py_contains (JArr xs) k = Some (JStr k \<in> set xs)"
| "py_contains (JStr s) k = Some (is_substring k s)"
| "py_contains v k = None"

text \<open>
  \<^verbatim>\<open>value[key]\<close> for a string key that is in the value (line 126): the entry of a
  dict; a list or a string raises \<^verbatim>\<open>TypeError\<close> (\<open>None\<close>), since their indices
  must be integers.
\<close>

fun py_getitem :: "json \<Rightarrow> string \<Rightarrow> json option" where
  "py_getitem (JObj kvs) k = map_of kvs k"
| "py_getitem v k = None"

subsection \<open>The library, the log and the record of page operations\<close>

text \<open>
  What the module does to the open document is recorded as the list of the library
  calls it made on pages, each with its arguments and whether it returned
  (\<open>True\<close>) or raised (\<open>False\<close>).
\<close>

type_synonym rgb = "num \<times> num \<times> num"

datatype op =
    AddRedactAnnot nat "num list" rgb bool
  | ApplyRedactions nat bool
  | InsertText nat "num \<times> num" json string num rgb bool

fun op_page :: "op \<Rightarrow> nat" where
  "op_page (AddRedactAnnot p _ _ _) = p"
| "op_page (ApplyRedactions p _) = p"
| "op_page (InsertText p _ _ _ _ _ _) = p"

text \<open>The calls of \<^verbatim>\<open>logging.error\<close>, one constructor for each message.\<close>

datatype log_entry =
    FailedToOpen
  | FailedToOpenForEditing
  | InvalidSpanIndex string
  | SpanIndexOutOfRange int nat
  | NoBoundingBox int nat
  | FailedToAddRedaction int nat
  | ErrorApplyingRedactions nat
  | ErrorInsertingText nat
  | ErrorSaving

record state =
  ops :: "op list"
  logs :: "log_entry list"

text \<open>
  The library and the interpreter are parameters. \<^verbatim>\<open>fitz.open\<close> returns the
  document or raises (\<open>None\<close>). The reads \<^verbatim>\<open>len(doc)\<close>, \<^verbatim>\<open>doc[i]\<close> and
  \<^verbatim>\<open>page.get_text("dict")\<close>, and \<^verbatim>\<open>doc.close()\<close>, return (\<open>True\<close>) or raise
  (\<open>False\<close>), depending on the document and the page: a document that opens need not
  be readable. Whether a call that changes a page returns or raises may depend on its
  arguments and on every call made on the document before it. \<^verbatim>\<open>doc.save\<close> returns
  the bytes written, which depend on the document and on what was done to it, or
  raises (\<open>None\<close>).
\<close>

record env =
  fitz_open :: "string \<Rightarrow> document option"
  len_doc :: "document \<Rightarrow> bool"
  load_page :: "document \<Rightarrow> nat \<Rightarrow> bool"
  get_text :: "document \<Rightarrow> nat \<Rightarrow> bool"
  doc_close :: "document \<Rightarrow> bool"
  add_redact_annot :: "op list \<Rightarrow> nat \<Rightarrow> num list \<Rightarrow> rgb \<Rightarrow> bool"
  apply_redactions :: "op list \<Rightarrow> nat \<Rightarrow> bool"
  insert_text :: "op list \<Rightarrow> nat \<Rightarrow> num \<times> num \<Rightarrow> json \<Rightarrow> string \<Rightarrow> num \<Rightarrow> rgb \<Rightarrow> bool"
  doc_save :: "document \<Rightarrow> op list \<Rightarrow> string option"
  int_max_str_digits :: nat

text \<open>
  The exceptions that leave the two operations: those of the library calls that are
  outside every \<^verbatim>\<open>try\<close> or are re-raised (lines 42-45, 49, 50, 52, 72, 102-105, 108,
  109, 115, 191-195), the \<^verbatim>\<open>TypeError\<close> of lines 111 and 126 and the
  \<^verbatim>\<open>AttributeError\<close> of line 127, with the page number where there is one.
\<close>

datatype error =
    OpenFailed
  | LenFailed
  | LoadPageFailed nat
  | GetTextFailed nat
  | EditsTypeError nat
  | PageEditsAttributeError nat
  | SaveFailed
  | CloseFailed

subsection \<open>\<^verbatim>\<open>extract_text_from_pdf\<close>\<close>

record extraction =
  pages :: "fragment list list"

text \<open>Lines 50 and 52: \<^verbatim>\<open>doc[page_number]\<close>, then \<^verbatim>\<open>page.get_text("dict")\<close>.\<close>

definition page_text :: "env \<Rightarrow> document \<Rightarrow> nat \<Rightarrow> error + page_dict" where
  "page_text e doc page_number =
     (if \<not> load_page e doc page_number then Inl (LoadPageFailed page_number)
      else if \<not> get_text e doc page_number then Inl (GetTextFailed page_number)
      else Inr (doc ! page_number))"

text \<open>The body of the page loop (lines 49-70); after an exception the remaining
  iterations do nothing.\<close>

definition extract_step ::
  "env \<Rightarrow> document \<Rightarrow> error + fragment list list \<Rightarrow> nat \<Rightarrow> error + fragment list list" where
  "extract_step e doc acc page_number =
     (case acc of
        Inl err \<Rightarrow> Inl err
      | Inr ps \<Rightarrow>
          (case page_text e doc page_number of
             Inl err \<Rightarrow> Inl err
           | Inr page_dict \<Rightarrow> Inr (ps @ [extract_page page_dict])))"

definition extract_text_from_pdf :: "env \<Rightarrow> string \<Rightarrow> (error + extraction) \<times> log_entry list" where
  "extract_text_from_pdf e file_path =
     (case fitz_open e file_path of
        None \<Rightarrow> (Inl OpenFailed, [FailedToOpen])
      | Some doc \<Rightarrow>
          if \<not> len_doc e doc then (Inl LenFailed, [])
          else
            (case foldl (extract_step e doc) (Inr []) [0..<length doc] of
               Inl err \<Rightarrow> (Inl err, [])
             | Inr ps \<Rightarrow>
                 if doc_close e doc then (Inr \<lparr>pages = ps\<rparr>, []) else (Inl CloseFailed, [])))"

subsection \<open>\<^verbatim>\<open>apply_text_edits_to_pdf\<close>\<close>

text \<open>An element of \<^verbatim>\<open>annotations\<close> (lines 149-156), without the annotation handle,
  which is never read. The replacement text is the value found in the dict, whatever
  it is.\<close>

record annotation =
  a_bbox :: "num list"
  a_font :: string
  a_size :: num
  a_color :: int
  a_new_text :: json

definition log_error :: "log_entry \<Rightarrow> state \<Rightarrow> state" where
  "log_error m st = st\<lparr>logs := logs st @ [m]\<rparr>"

definition record_op :: "op \<Rightarrow> state \<Rightarrow> state" where
  "record_op x st = st\<lparr>ops := ops st @ [x]\<rparr>"

text \<open>The body of the loop of lines 127-159.\<close>

definition plan_entry ::
  "env \<Rightarrow> nat \<Rightarrow> span list \<Rightarrow> state \<times> annotation list \<Rightarrow> string \<times> json
     \<Rightarrow> state \<times> annotation list" where
  "plan_entry e page_number spans sa item =
     (case sa of (st, annotations) \<Rightarrow>
     (case item of (span_index_str, new_text) \<Rightarrow>
     (case py_int (int_max_str_digits e) span_index_str of
        None \<Rightarrow> (log_error (InvalidSpanIndex span_index_str) st, annotations)
      | Some span_index \<Rightarrow>
          if span_index < 0 \<or> span_index \<ge> int (length spans)
          then (log_error (SpanIndexOutOfRange span_index page_number) st, annotations)
          else
            (case s_bbox (spans ! nat span_index) of
               None \<Rightarrow> (log_error (NoBoundingBox span_index page_number) st, annotations)
             | Some bbox \<Rightarrow>
                 if bbox = []
                 then (log_error (NoBoundingBox span_index page_number) st, annotations)
                 else if add_redact_annot e (ops st) page_number bbox (1, 1, 1)
                 then (record_op (AddRedactAnnot page_number bbox (1, 1, 1) True) st,
                       annotations @
                         [\<lparr>a_bbox = bbox,
                           a_font = get_or (s_font (spans ! nat span_index)) ''helv'',
                           a_size = get_or (s_size (spans ! nat span_index)) 12,
                           a_color = get_or (s_color (spans ! nat span_index)) 0,
                           a_new_text = new_text\<rparr>])
                 else (log_error (FailedToAddRedaction span_index page_number)
                         (record_op (AddRedactAnnot page_number bbox (1, 1, 1) False) st),
                       annotations)))))"

text \<open>
  The body of the loop of lines 169-185. \<^verbatim>\<open>bbox[3]\<close> raises \<^verbatim>\<open>IndexError\<close>
  inside the \<^verbatim>\<open>try\<close> when the box has fewer than four coordinates (it has at least
  one: an empty box never enters the plan).
\<close>

definition insert_entry :: "env \<Rightarrow> nat \<Rightarrow> state \<Rightarrow> annotation \<Rightarrow> state" where
  "insert_entry e page_number st item =
     (let bbox = a_bbox item; font = a_font item; size = a_size item;
          new_text = a_new_text item
      in if length bbox < 4 then log_error (ErrorInsertingText page_number) st
         else
           (let insertion_point = (bbox ! 0, bbox ! 3 - 1)
            in if insert_text e (ops st) page_number insertion_point new_text font size (0, 0, 0)
               then record_op
                      (InsertText page_number insertion_point new_text font size (0, 0, 0) True) st
               else log_error (ErrorInsertingText page_number)
                      (record_op
                         (InsertText page_number insertion_point new_text font size (0, 0, 0) False)
                         st)))"

text \<open>
  Lines 109-127, up to the head of the planning loop: what is evaluated before anything
  is done to the page, all of it outside every \<^verbatim>\<open>try\<close>. The result is the
  exception raised, or \<open>None\<close> when the page has no entry (\<^verbatim>\<open>continue\<close>), or the
  items of the page's dict. The span loops of lines 116-122 lie between
  \<^verbatim>\<open>get_text\<close> and \<^verbatim>\<open>edits[page_key]\<close> and raise nothing.
\<close>

definition page_edits_of ::
  "env \<Rightarrow> json \<Rightarrow> document \<Rightarrow> nat \<Rightarrow> error + (string \<times> json) list option" where
  "page_edits_of e edits doc page_number =
     (let page_key = str_nat page_number
      in if \<not> load_page e doc page_number then Inl (LoadPageFailed page_number)
         else
           (case py_contains edits page_key of
              None \<Rightarrow> Inl (EditsTypeError page_number)
            | Some False \<Rightarrow> Inr None
            | Some True \<Rightarrow>
                if \<not> get_text e doc page_number then Inl (GetTextFailed page_number)
                else
                  (case py_getitem edits page_key of
                     None \<Rightarrow> Inl (EditsTypeError page_number)
                   | Some (JObj page_edits) \<Rightarrow> Inr (Some page_edits)
                   | Some _ \<Rightarrow> Inl (PageEditsAttributeError page_number))))"

text \<open>Lines 124-185 for one page, given its spans and the items of its dict: plan,
  commit, insert. Nothing here raises.\<close>

definition edit_page ::
  "env \<Rightarrow> nat \<Rightarrow> span list \<Rightarrow> (string \<times> json) list \<Rightarrow> state \<Rightarrow> state" where
  "edit_page e page_number spans page_edits st =
     (case foldl (plan_entry e page_number spans) (st, []) page_edits of
        (st1, annotations) \<Rightarrow>
          if apply_redactions e (ops st1) page_number
          then foldl (insert_entry e page_number)
                 (record_op (ApplyRedactions page_number True) st1) annotations
          else log_error (ErrorApplyingRedactions page_number)
                 (record_op (ApplyRedactions page_number False) st1))"

text \<open>The body of the page loop, lines 108-185, with the exception that leaves it.\<close>

definition process_page ::
  "env \<Rightarrow> json \<Rightarrow> document \<Rightarrow> state \<Rightarrow> nat \<Rightarrow> error option \<times> state" where
  "process_page e edits doc st page_number =
     (case page_edits_of e edits doc page_number of
        Inl err \<Rightarrow> (Some err, st)
      | Inr None \<Rightarrow> (None, st)
      | Inr (Some page_edits) \<Rightarrow>
          (None, edit_page e page_number (rederive_spans (doc ! page_number)) page_edits st))"

text \<open>The page loop; after an exception the remaining iterations do nothing.\<close>

definition page_loop_step ::
  "env \<Rightarrow> json \<Rightarrow> document \<Rightarrow> error option \<times> state \<Rightarrow> nat \<Rightarrow> error option \<times> state" where
  "page_loop_step e edits doc acc page_number =
     (case acc of
        (Some err, st) \<Rightarrow> (Some err, st)
      | (None, st) \<Rightarrow> process_page e edits doc st page_number)"

definition process_pages :: "env \<Rightarrow> json \<Rightarrow> document \<Rightarrow> error option \<times> state" where
  "process_pages e edits doc =
     foldl (page_loop_step e edits doc) (None, \<lparr>ops = [], logs = []\<rparr>) [0..<length doc]"

definition apply_text_edits_to_pdf :: "env \<Rightarrow> string \<Rightarrow> json \<Rightarrow> (error + string) \<times> state" where
  "apply_text_edits_to_pdf e pdf_path edits =
     (case fitz_open e pdf_path of
        None \<Rightarrow> (Inl OpenFailed, \<lparr>ops = [], logs = [FailedToOpenForEditing]\<rparr>)
      | Some doc \<Rightarrow>
          if \<not> len_doc e doc then (Inl LenFailed, \<lparr>ops = [], logs = []\<rparr>)
          else
            (case process_pages e edits doc of
               (Some err, st) \<Rightarrow> (Inl err, st)
             | (None, st) \<Rightarrow>
                 (case doc_save e doc (ops st) of
                    None \<Rightarrow> (Inl SaveFailed, log_error ErrorSaving st)
                  | Some bytes \<Rightarrow>
                      if doc_close e doc then (Inr bytes, st) else (Inl CloseFailed, st))))"

text \<open>The page loop ran to its end: the operation returned, or the exception is that of
  \<^verbatim>\<open>doc.save\<close> or \<^verbatim>\<open>doc.close\<close>.\<close>

definition pages_done :: "error + string \<Rightarrow> bool" where
  "pages_done r = (case r of Inr bytes \<Rightarrow> True | Inl err \<Rightarrow> err = SaveFailed \<or> err = CloseFailed)"

subsection \<open>Reading the record of page operations\<close>

text \<open>
  The calls made on one page; the calls of \<^verbatim>\<open>add_redact_annot\<close> with their
  arguments (page, box, fill) and outcome; the boxes whose marking succeeded; the
  outcomes of the commits; the calls of \<^verbatim>\<open>insert_text\<close> with their arguments (page,
  point, text, fontname, fontsize, color).
\<close>

definition on_page :: "nat \<Rightarrow> op list \<Rightarrow> op list" where
  "on_page p h = filter (\<lambda>x. op_page x = p) h"

type_synonym mark_args = "nat \<times> num list \<times> rgb"

fun mark_calls :: "op list \<Rightarrow> (mark_args \<times> bool) list" where
  "mark_calls [] = []"
| "mark_calls (AddRedactAnnot p b c ok # h) = ((p, b, c), ok) # mark_calls h"
| "mark_calls (ApplyRedactions p ok # h) = mark_calls h"
| "mark_calls (InsertText p pt t f s c ok # h) = mark_calls h"

fun marked_boxes :: "op list \<Rightarrow> num list list" where
  "marked_boxes [] = []"
| "marked_boxes (AddRedactAnnot p b c ok # h) =
     (if ok then b # marked_boxes h else marked_boxes h)"
| "marked_boxes (ApplyRedactions p ok # h) = marked_boxes h"
| "marked_boxes (InsertText p pt t f s c ok # h) = marked_boxes h"

fun commits :: "op list \<Rightarrow> bool list" where
  "commits [] = []"
| "commits (AddRedactAnnot p b c ok # h) = commits h"
| "commits (ApplyRedactions p ok # h) = ok # commits h"
| "commits (InsertText p pt t f s c ok # h) = commits h"

type_synonym insert_args = "nat \<times> (num \<times> num) \<times> json \<times> string \<times> num \<times> rgb"

fun insert_calls :: "op list \<Rightarrow> insert_args list" where
  "insert_calls [] = []"
| "insert_calls (AddRedactAnnot p b c ok # h) = insert_calls h"
| "insert_calls (ApplyRedactions p ok # h) = insert_calls h"
| "insert_calls (InsertText p pt t f s c ok # h) = (p, pt, t, f, s, c) # insert_calls h"

text \<open>
  What the calls on one page look like when they are read back: after a commit that
  succeeded, the insertion points are those of the marked boxes that have four
  coordinates, in order; without one, nothing is inserted.
\<close>

definition page_trace_ok :: "op list \<Rightarrow> bool" where
  "page_trace_ok h \<longleftrightarrow>
     (commits h = [True] \<longrightarrow>
        map (fst \<circ> snd) (insert_calls h) =
          map (\<lambda>b. (b ! 0, b ! 3 - 1)) (filter (\<lambda>b. 4 \<le> length b) (marked_boxes h))) \<and>
     (commits h \<noteq> [True] \<longrightarrow> insert_calls h = [])"

subsection \<open>Valid edits and what applying them means\<close>

text \<open>
  These functions are not in the source; they are used to state what the source does.
  An item of a page's dict is a valid edit when it passes the three checks of lines
  128-142: its key is accepted by \<^verbatim>\<open>int\<close>, the index is neither negative nor beyond
  the spans, and the span has a non-empty bounding box. \<open>valid_edit\<close> returns the
  index, the box and the replacement text of a valid edit.
\<close>

definition valid_edit :: "nat \<Rightarrow> span list \<Rightarrow> string \<times> json \<Rightarrow> (nat \<times> num list \<times> json) option" where
  "valid_edit m spans item =
     (case item of (k, t) \<Rightarrow>
     (case py_int m k of
        None \<Rightarrow> None
      | Some v \<Rightarrow>
          if v < 0 \<or> int (length spans) \<le> v then None
          else
            (case s_bbox (spans ! nat v) of
               None \<Rightarrow> None
             | Some b \<Rightarrow> if b = [] then None else Some (nat v, b, t))))"

text \<open>The plan entry of a valid edit, as lines 149-156 build it.\<close>

definition planned :: "span list \<Rightarrow> nat \<times> num list \<times> json \<Rightarrow> annotation" where
  "planned spans v =
     (case v of (i, b, t) \<Rightarrow>
        \<lparr>a_bbox = b,
         a_font = (case s_font (spans ! i) of None \<Rightarrow> ''helv'' | Some f \<Rightarrow> f),
         a_size = (case s_size (spans ! i) of None \<Rightarrow> 12 | Some z \<Rightarrow> z),
         a_color = (case s_color (spans ! i) of None \<Rightarrow> 0 | Some c \<Rightarrow> c),
         a_new_text = t\<rparr>)"

text \<open>
  The valid edits whose marking succeeded, given the calls of \<^verbatim>\<open>add_redact_annot\<close>
  that were made for the valid edits, in order.
\<close>

definition marked_edits ::
  "(nat \<times> num list \<times> json) list \<Rightarrow> (mark_args \<times> bool) list \<Rightarrow> (nat \<times> num list \<times> json) list" where
  "marked_edits valid marks = map fst (filter (\<lambda>vc. snd (snd vc)) (zip valid marks))"

text \<open>
  The calls \<open>h\<close> made on page \<open>p\<close> apply the items \<open>page_edits\<close> to the spans of the
  page: one mark is attempted for each valid edit, in order, on the edit's box with a
  white fill; there is one commit; when it succeeded, one insertion is attempted for
  each valid edit whose marking succeeded and whose box has four coordinates, in
  order, at the point \<open>(x0, y1 - 1)\<close> with the edit's text and the span's font and
  size, in black; when it failed, nothing is inserted.
\<close>

definition edits_applied :: "nat \<Rightarrow> span list \<Rightarrow> nat \<Rightarrow> (string \<times> json) list \<Rightarrow> op list \<Rightarrow> bool" where
  "edits_applied m spans p page_edits h \<longleftrightarrow>
     (let valid = List.map_filter (valid_edit m spans) page_edits;
          plan = map (planned spans) (marked_edits valid (mark_calls h))
      in map fst (mark_calls h) = map (\<lambda>v. (p, fst (snd v), (1, 1, 1))) valid \<and>
         length (commits h) = 1 \<and>
         insert_calls h =
           (if commits h = [True]
            then map (\<lambda>a. (p, (a_bbox a ! 0, a_bbox a ! 3 - 1), a_new_text a, a_font a, a_size a,
                           (0, 0, 0)))
                   (filter (\<lambda>a. 4 \<le> length (a_bbox a)) plan)
            else []))"

subsection \<open>Edit sets without the entries that are skipped\<close>

text \<open>
  These functions are not in the source either; they remove entries from an edit set
  and are used to state that the removed entries have no effect. \<open>skipped\<close> says that
  the planning loop leaves an entry at its first or second \<^verbatim>\<open>continue\<close>. A span key
  is malformed when \<^verbatim>\<open>int\<close> refuses it or returns a negative number; a page key is
  never parsed by the source, so for page keys the parse has no digit limit. An entry
  is out of range when its key parses and the index is negative or not below the number
  of spans of the page its page key names; a page is missing when its key parses to a
  number that is not a page index of the document. A value that is not a dict is left
  as it is.
\<close>

definition skipped :: "nat \<Rightarrow> span list \<Rightarrow> string \<Rightarrow> bool" where
  "skipped m spans k \<longleftrightarrow>
     (case py_int m k of None \<Rightarrow> True | Some v \<Rightarrow> v < 0 \<or> int (length spans) \<le> v)"

definition parses_nonneg :: "nat \<Rightarrow> string \<Rightarrow> bool" where
  "parses_nonneg m k = (case py_int m k of None \<Rightarrow> False | Some v \<Rightarrow> 0 \<le> v)"

definition filter_items :: "(string \<Rightarrow> bool) \<Rightarrow> json \<Rightarrow> json" where
  "filter_items keep v = (case v of JObj items \<Rightarrow> JObj (filter (\<lambda>(k, t). keep k) items) | _ \<Rightarrow> v)"

definition drop_malformed :: "nat \<Rightarrow> (string \<times> json) list \<Rightarrow> (string \<times> json) list" where
  "drop_malformed m edits =
     map (\<lambda>(pk, v). (pk, filter_items (parses_nonneg m) v))
       (filter (\<lambda>(pk, v). parses_nonneg 0 pk) edits)"

definition out_of_range :: "nat \<Rightarrow> span list \<Rightarrow> string \<Rightarrow> bool" where
  "out_of_range m spans k =
     (case py_int m k of None \<Rightarrow> False | Some v \<Rightarrow> v < 0 \<or> int (length spans) \<le> v)"

definition missing_page :: "document \<Rightarrow> string \<Rightarrow> bool" where
  "missing_page doc pk =
     (case py_int 0 pk of None \<Rightarrow> False | Some v \<Rightarrow> v < 0 \<or> int (length doc) \<le> v)"

definition in_range_edits :: "nat \<Rightarrow> document \<Rightarrow> string \<Rightarrow> json \<Rightarrow> json" where
  "in_range_edits m doc pk v =
     (case py_int 0 pk of
        None \<Rightarrow> v
      | Some i \<Rightarrow> filter_items (\<lambda>k. \<not> out_of_range m (rederive_spans (doc ! nat i)) k) v)"

definition drop_out_of_range :: "nat \<Rightarrow> document \<Rightarrow> (string \<times> json) list \<Rightarrow> (string \<times> json) list" where
  "drop_out_of_range m doc edits =
     map (\<lambda>(pk, v). (pk, in_range_edits m doc pk v))
       (filter (\<lambda>(pk, v). \<not> missing_page doc pk) edits)"

subsection \<open>The JSON form of a fragment model\<close>

text \<open>
  Modelled from the spec: the encoding of a fragment model written by
  \<^verbatim>\<open>json.dump\<close> in \<^verbatim>\<open>routes.py\<close> (line 82), which is library code. Section 6 of
  the specification gives its form: a fragment is an object with the members
  \<open>text\<close>, \<open>bbox\<close>, \<open>font\<close>, \<open>size\<close> and \<open>color\<close>, a model is an object whose member
  \<open>pages\<close> is the list of the lists of the fragments of the pages. The encoding stops
  at the JSON value; the text that \<^verbatim>\<open>json.dump\<close> writes for it is not modelled.
\<close>

definition enc_fragment :: "fragment \<Rightarrow> json" where
  "enc_fragment f =
     JObj [(''text'', JStr (f_text f)),
           (''bbox'', JArr (map JNum (f_bbox f))),
           (''font'', JStr (f_font f)),
           (''size'', JNum (f_size f)),
           (''color'', JInt (f_color f))]"

text \<open>
  Modelled from the spec: the encoding of a whole fragment model (section 6,
  \<open>FragmentModel JSON\<close>), written by \<^verbatim>\<open>json.dump\<close>, which is library code.
\<close>

definition enc_model :: "extraction \<Rightarrow> json" where
  "enc_model m = JObj [(''pages'', JArr (map (\<lambda>p. JArr (map enc_fragment p)) (pages m)))]"

text \<open>
  Modelled from the spec: the decoding done by \<^verbatim>\<open>json.load\<close> in \<^verbatim>\<open>routes.py\<close>
  (line 116), which is library code, read back as a fragment model. A number is a
  float or an integer; a member that is absent takes the default of section 3 (the
  empty string, the empty list, zero); a value of another form has no decoding.
\<close>

definition dec_num :: "json \<Rightarrow> num option" where
  "dec_num v = (case v of JNum x \<Rightarrow> Some x | JInt i \<Rightarrow> Some (of_int i) | _ \<Rightarrow> None)"

text \<open>Modelled from the spec: a list of values decoded one by one (\<^verbatim>\<open>json.load\<close>,
  library code); it has a decoding when all its elements have one.\<close>

definition dec_list :: "(json \<Rightarrow> 'a option) \<Rightarrow> json \<Rightarrow> 'a list option" where
  "dec_list d v = (case v of JArr xs \<Rightarrow> those (map d xs) | _ \<Rightarrow> None)"

text \<open>Modelled from the spec: a member of an object with its default (section 6: fields
  absent in a fragment default), decoded by \<open>d\<close>; \<^verbatim>\<open>json.load\<close> is library code.\<close>

definition dec_member :: "(json \<Rightarrow> 'a option) \<Rightarrow> 'a \<Rightarrow> (string \<times> json) list \<Rightarrow> string \<Rightarrow> 'a option" where
  "dec_member d dflt members k = (case map_of members k of None \<Rightarrow> Some dflt | Some v \<Rightarrow> d v)"

text \<open>Modelled from the spec: the decoding of a string and of an integer member
  (\<^verbatim>\<open>json.load\<close>, library code).\<close>

definition dec_str :: "json \<Rightarrow> string option" where
  "dec_str v = (case v of JStr s \<Rightarrow> Some s | _ \<Rightarrow> None)"

text \<open>Modelled from the spec: the decoding of an integer (the \<open>color\<close> member of section
  6); \<^verbatim>\<open>json.load\<close> is library code.\<close>

definition dec_int :: "json \<Rightarrow> int option" where
  "dec_int v = (case v of JInt i \<Rightarrow> Some i | _ \<Rightarrow> None)"

text \<open>
  Modelled from the spec: the decoding of a fragment (section 6, \<open>Fragment JSON\<close>);
  \<^verbatim>\<open>json.load\<close> is library code.
\<close>

definition dec_fragment :: "json \<Rightarrow> fragment option" where
  "dec_fragment v =
     (case v of
        JObj members \<Rightarrow>
          (case (dec_member dec_str [] members ''text'',
                 dec_member (dec_list dec_num) [] members ''bbox'',
                 dec_member dec_str [] members ''font'',
                 dec_member dec_num 0 members ''size'',
                 dec_member dec_int 0 members ''color'') of
             (Some t, Some b, Some f, Some s, Some c) \<Rightarrow>
               Some \<lparr>f_text = t, f_bbox = b, f_font = f, f_size = s, f_color = c\<rparr>
           | _ \<Rightarrow> None)
      | _ \<Rightarrow> None)"

text \<open>
  Modelled from the spec: the decoding of a whole fragment model (section 6,
  \<open>FragmentModel JSON\<close>); \<^verbatim>\<open>json.load\<close> is library code.
\<close>

definition dec_model :: "json \<Rightarrow> extraction option" where
  "dec_model v =
     (case v of
        JObj members \<Rightarrow>
          (case map_of members ''pages'' of
             None \<Rightarrow> None
           | Some ps \<Rightarrow> map_option (\<lambda>x. \<lparr>pages = x\<rparr>) (dec_list (dec_list dec_fragment) ps))
      | _ \<Rightarrow> None)"

subsection \<open>A sample document and library\<close>

text \<open>
  The span of the specification's scenario, \<open>Hello\<close> at \<open>[10, 10, 50, 20]\<close> in
  Helvetica 12, followed by a span whose font name is the empty string and whose size
  is zero; a page holds an image block and then a text block with these two spans, and
  the document has two such pages. In the sample library \<^verbatim>\<open>in.pdf\<close> opens as this
  document and no other path opens; every read returns; the first flag says whether
  marking succeeds, the second whether the commit on page 0 succeeds (it always does
  on later pages); inserting, saving and closing succeed.
\<close>

definition hello_span :: span where
  "hello_span =
     \<lparr>s_text = Some ''Hello'', s_bbox = Some [10, 10, 50, 20],
      s_font = Some ''Helvetica'', s_size = Some 12, s_color = Some 0\<rparr>"

definition bare_span :: span where
  "bare_span =
     \<lparr>s_text = Some ''x'', s_bbox = Some [60, 10, 70, 20],
      s_font = Some [], s_size = Some 0, s_color = Some 255\<rparr>"

definition hello_page :: page_dict where
  "hello_page =
     \<lparr>pd_blocks = Some
        [\<lparr>b_type = Some 1, b_lines = None\<rparr>,
         \<lparr>b_type = Some 0, b_lines = Some [\<lparr>l_spans = Some [hello_span, bare_span]\<rparr>]\<rparr>]\<rparr>"

definition hello_doc :: document where
  "hello_doc = [hello_page, hello_page]"

definition sample_lib :: "bool \<Rightarrow> bool \<Rightarrow> env" where
  "sample_lib redact commit =
     \<lparr>fitz_open = (\<lambda>p. if p = ''in.pdf'' then Some hello_doc else None),
      len_doc = (\<lambda>_. True),
      load_page = (\<lambda>_ _. True),
      get_text = (\<lambda>_ _. True),
      doc_close = (\<lambda>_. True),
      add_redact_annot = (\<lambda>_ _ _ _. redact),
      apply_redactions = (\<lambda>_ p. commit \<or> 0 < p),
      insert_text = (\<lambda>_ _ _ _ _ _ _. True),
      doc_save = (\<lambda>_ h. Some (if h = [] then ''unchanged'' else ''edited'')),
      int_max_str_digits = 4300\<rparr>"

text \<open>A protected document: it opens, and every read of it raises.\<close>

definition locked_lib :: env where
  "locked_lib = (sample_lib True True)\<lparr>len_doc := (\<lambda>_. False)\<rparr>"

section \<open>Properties\<close>

subsection \<open>The two traversals agree\<close>











subsection \<open>Decimal numerals\<close>

lemma digit_char_props:
  assumes "d < 10"
  shows "is_digit (digit_char d)" "digit_val (digit_char d) = d"
  using assms by (simp_all add: is_digit_def digit_val_def digit_char_def)

lemma is_digit_not_special:
  assumes "is_digit c"
  shows "\<not> is_space c" "c \<noteq> CHR ''+''" "c \<noteq> CHR ''-''" "c \<noteq> CHR ''_''"
  using assms by (auto simp: is_digit_def is_space_def Let_def)

lemma str_nat_digits: "str_nat n \<noteq> [] \<and> (\<forall>c \<in> set (str_nat n). is_digit c)"
proof (induction n rule: str_nat.induct)
  case (1 n)
  show ?case
  proof (cases "n < 10")
    case True
    then show ?thesis by (simp add: str_nat.simps [of n] digit_char_props)
  next
    case False
    with 1 show ?thesis by (simp add: str_nat.simps [of n] digit_char_props)
  qed
qed

lemma scan_digits_all:
  "s \<noteq> [] \<Longrightarrow> \<forall>c \<in> set s. is_digit c \<Longrightarrow> scan_digits s = Some (map digit_val s)"
proof (induction s rule: scan_digits.induct)
  case 1
  then show ?case by simp
next
  case (2 c)
  then show ?case by simp
next
  case (3 c d cs)
  then show ?case by (simp add: is_digit_not_special)
qed

lemma digits_value_snoc: "digits_value (ds @ [d]) = 10 * digits_value ds + d"
  by (simp add: digits_value_def)

lemma digits_value_str_nat: "digits_value (map digit_val (str_nat n)) = n"
proof (induction n rule: str_nat.induct)
  case (1 n)
  show ?case
  proof (cases "n < 10")
    case True
    then show ?thesis by (simp add: str_nat.simps [of n] digit_char_props digits_value_def)
  next
    case False
    with 1 show ?thesis
      by (simp add: str_nat.simps [of n] digit_char_props digits_value_snoc)
  qed
qed

lemma dropWhile_id: "s \<noteq> [] \<Longrightarrow> \<not> P (hd s) \<Longrightarrow> dropWhile P s = s"
  by (cases s) simp_all

lemma int_literal_digits:
  assumes "s \<noteq> []" "\<forall>c \<in> set s. is_digit c"
  shows "int_literal s = Some (False, map digit_val s)"
proof -
  from assms obtain c r where s: "s = c # r" by (cases s) auto
  with assms have c: "is_digit c" by simp
  have l: "is_digit (last s)" using assms by simp
  have 1: "dropWhile is_space s = s"
    using s c by (simp add: is_digit_not_special)
  have 2: "dropWhile is_space (rev s) = rev s"
    using assms l by (intro dropWhile_id) (simp_all add: hd_rev is_digit_not_special)
  have neg: "(case s of [] \<Rightarrow> False | c # _ \<Rightarrow> c = CHR ''-'') = False"
    using s c by (simp add: is_digit_not_special)
  have s2: "(case s of [] \<Rightarrow> [] | c # r \<Rightarrow> if c = CHR ''+'' \<or> c = CHR ''-'' then r else s) = s"
    using s c by (simp add: is_digit_not_special)
  show ?thesis
    unfolding int_literal_def Let_def 1 neg s2 2
    by (simp add: scan_digits_all assms)
qed

lemma py_int_str_nat: "py_int 0 (str_nat n) = Some (int n)"
  using str_nat_digits [of n]
  by (simp add: py_int_def int_literal_digits digits_value_str_nat)

subsection \<open>The record of page operations\<close>

lemma ops_log_error [simp]: "ops (log_error m st) = ops st"
  by (simp add: log_error_def)

lemma ops_record_op [simp]: "ops (record_op x st) = ops st @ [x]"
  by (simp add: record_op_def)

lemma marked_boxes_append: "marked_boxes (xs @ ys) = marked_boxes xs @ marked_boxes ys"
  by (induction xs rule: marked_boxes.induct) simp_all

lemma commits_append: "commits (xs @ ys) = commits xs @ commits ys"
  by (induction xs rule: commits.induct) simp_all

lemma insert_calls_append: "insert_calls (xs @ ys) = insert_calls xs @ insert_calls ys"
  by (induction xs rule: insert_calls.induct) simp_all

lemma on_page_append: "on_page p (xs @ ys) = on_page p xs @ on_page p ys"
  by (simp add: on_page_def)

lemma on_page_same: "\<forall>x \<in> set xs. op_page x = p \<Longrightarrow> on_page p xs = xs"
  by (simp add: on_page_def)

lemma on_page_other: "\<forall>x \<in> set xs. op_page x \<noteq> p \<Longrightarrow> on_page p xs = []"
  by (simp add: on_page_def)

text \<open>One step of the planning loop.\<close>

lemma plan_entry_trace:
  "\<exists>evs new. ops (fst (plan_entry e pn spans (st, anns) it)) = ops st @ evs \<and>
      snd (plan_entry e pn spans (st, anns) it) = anns @ new \<and>
      (\<forall>x \<in> set evs. op_page x = pn) \<and>
      marked_boxes evs = map a_bbox new \<and> commits evs = [] \<and> insert_calls evs = []"
  by (cases it) (simp add: plan_entry_def split: option.split)

lemma plan_fold_trace:
  "\<exists>evs new. ops (fst (foldl (plan_entry e pn spans) (st, anns) pe)) = ops st @ evs \<and>
      snd (foldl (plan_entry e pn spans) (st, anns) pe) = anns @ new \<and>
      (\<forall>x \<in> set evs. op_page x = pn) \<and>
      marked_boxes evs = map a_bbox new \<and> commits evs = [] \<and> insert_calls evs = []"
proof (induction pe arbitrary: st anns)
  case Nil
  show ?case by simp
next
  case (Cons it pe)
  obtain st1 anns1 where r: "plan_entry e pn spans (st, anns) it = (st1, anns1)"
    by (cases "plan_entry e pn spans (st, anns) it")
  from plan_entry_trace [of e pn spans st anns it] r obtain evs1 new1 where
    1: "ops st1 = ops st @ evs1" "anns1 = anns @ new1" "\<forall>x \<in> set evs1. op_page x = pn"
       "marked_boxes evs1 = map a_bbox new1" "commits evs1 = []" "insert_calls evs1 = []"
    by auto
  from Cons.IH [of st1 anns1] obtain evs2 new2 where
    2: "ops (fst (foldl (plan_entry e pn spans) (st1, anns1) pe)) = ops st1 @ evs2"
       "snd (foldl (plan_entry e pn spans) (st1, anns1) pe) = anns1 @ new2"
       "\<forall>x \<in> set evs2. op_page x = pn"
       "marked_boxes evs2 = map a_bbox new2" "commits evs2 = []" "insert_calls evs2 = []"
    by blast
  show ?case
    apply (rule exI [of _ "evs1 @ evs2"], rule exI [of _ "new1 @ new2"])
    using 1 2 r
    by (auto simp: marked_boxes_append commits_append insert_calls_append)
qed

lemma insert_entry_trace:
  "\<exists>evs. ops (insert_entry e pn st a) = ops st @ evs \<and>
      (\<forall>x \<in> set evs. op_page x = pn) \<and> length (insert_calls evs) = length evs \<and>
      insert_calls evs =
        map (\<lambda>a. (pn, (a_bbox a ! 0, a_bbox a ! 3 - 1), a_new_text a, a_font a, a_size a, (0, 0, 0)))
          (filter (\<lambda>a. 4 \<le> length (a_bbox a)) [a])"
  by (simp add: insert_entry_def Let_def)

lemma insert_fold_trace:
  "\<exists>evs. ops (foldl (insert_entry e pn) st anns) = ops st @ evs \<and>
      (\<forall>x \<in> set evs. op_page x = pn) \<and> length (insert_calls evs) = length evs \<and>
      insert_calls evs =
        map (\<lambda>a. (pn, (a_bbox a ! 0, a_bbox a ! 3 - 1), a_new_text a, a_font a, a_size a, (0, 0, 0)))
          (filter (\<lambda>a. 4 \<le> length (a_bbox a)) anns)"
proof (induction anns arbitrary: st)
  case Nil
  show ?case by simp
next
  case (Cons a anns)
  from insert_entry_trace [of e pn st a] obtain evs1 where
    1: "ops (insert_entry e pn st a) = ops st @ evs1" "\<forall>x \<in> set evs1. op_page x = pn"
       "length (insert_calls evs1) = length evs1"
       "insert_calls evs1 =
          map (\<lambda>a. (pn, (a_bbox a ! 0, a_bbox a ! 3 - 1), a_new_text a, a_font a, a_size a, (0, 0, 0)))
            (filter (\<lambda>a. 4 \<le> length (a_bbox a)) [a])"
    by blast
  from Cons.IH [of "insert_entry e pn st a"] obtain evs2 where
    2: "ops (foldl (insert_entry e pn) (insert_entry e pn st a) anns) = ops (insert_entry e pn st a) @ evs2"
       "\<forall>x \<in> set evs2. op_page x = pn" "length (insert_calls evs2) = length evs2"
       "insert_calls evs2 =
          map (\<lambda>a. (pn, (a_bbox a ! 0, a_bbox a ! 3 - 1), a_new_text a, a_font a, a_size a, (0, 0, 0)))
            (filter (\<lambda>a. 4 \<le> length (a_bbox a)) anns)"
    by blast
  show ?case
    apply (rule exI [of _ "evs1 @ evs2"])
    using 1 2 by (auto simp: insert_calls_append)
qed

lemma insert_calls_length: "length (insert_calls h) \<le> length h"
  by (induction h rule: insert_calls.induct) simp_all

lemma all_inserts_no_marks:
  "length (insert_calls evs) = length evs \<Longrightarrow> marked_boxes evs = [] \<and> commits evs = []"
proof (induction evs rule: insert_calls.induct)
  case 1
  show ?case by simp
next
  case (2 p b c ok h)
  with insert_calls_length [of h] show ?case by simp
next
  case (3 p ok h)
  with insert_calls_length [of h] show ?case by simp
next
  case (4 p pt t f s c ok h)
  then show ?case by simp
qed

lemma mark_calls_append: "mark_calls (xs @ ys) = mark_calls xs @ mark_calls ys"
  by (induction xs rule: mark_calls.induct) simp_all

lemma mark_calls_length: "length (mark_calls h) \<le> length h"
  by (induction h rule: mark_calls.induct) simp_all

lemma all_marks_no_others:
  "length (mark_calls evs) = length evs \<Longrightarrow> commits evs = [] \<and> insert_calls evs = []"
proof (induction evs rule: mark_calls.induct)
  case 1
  show ?case by simp
next
  case (2 p b c ok h)
  then show ?case by simp
next
  case (3 p ok h)
  with mark_calls_length [of h] show ?case by simp
next
  case (4 p pt t f s c ok h)
  with mark_calls_length [of h] show ?case by simp
qed

lemma all_inserts_no_mark_calls:
  "length (insert_calls evs) = length evs \<Longrightarrow> mark_calls evs = []"
proof (induction evs rule: insert_calls.induct)
  case 1
  show ?case by simp
next
  case (2 p b c ok h)
  with insert_calls_length [of h] show ?case by simp
next
  case (3 p ok h)
  with insert_calls_length [of h] show ?case by simp
next
  case (4 p pt t f s c ok h)
  then show ?case by simp
qed

lemma marked_boxes_mark_calls:
  "marked_boxes h = map (\<lambda>c. fst (snd (fst c))) (filter snd (mark_calls h))"
  by (induction h rule: mark_calls.induct) simp_all

lemma marked_edits_Nil [simp]: "marked_edits [] cs = []" "marked_edits vs [] = []"
  by (simp_all add: marked_edits_def)

lemma marked_edits_Cons [simp]:
  "marked_edits (v # vs) (c # cs) = (if snd c then v # marked_edits vs cs else marked_edits vs cs)"
  by (simp add: marked_edits_def)

lemma marked_edits_append:
  "length vs = length cs \<Longrightarrow>
   marked_edits (vs @ vs') (cs @ cs') = marked_edits vs cs @ marked_edits vs' cs'"
  by (simp add: marked_edits_def)

text \<open>One step of the planning loop, by what \<open>valid_edit\<close> says of the item.\<close>

lemma plan_entry_invalid:
  assumes "valid_edit (int_max_str_digits e) spans it = None"
  shows "ops (fst (plan_entry e pn spans (st, anns) it)) = ops st"
    and "snd (plan_entry e pn spans (st, anns) it) = anns"
  using assms
  by (cases it; auto simp: valid_edit_def plan_entry_def split: option.splits if_splits)+

lemma plan_entry_valid:
  assumes "valid_edit (int_max_str_digits e) spans it = Some v"
  shows "\<exists>ok. ops (fst (plan_entry e pn spans (st, anns) it)) =
              ops st @ [AddRedactAnnot pn (fst (snd v)) (1, 1, 1) ok] \<and>
            snd (plan_entry e pn spans (st, anns) it) =
              anns @ (if ok then [planned spans v] else [])"
proof (cases it)
  case (Pair k t)
  show ?thesis
  proof (cases "add_redact_annot e (ops st) pn (fst (snd v)) (1, 1, 1)")
    case True
    with assms Pair show ?thesis
      by (intro exI [of _ True])
         (auto simp: valid_edit_def plan_entry_def planned_def get_or_def
               split: option.splits if_splits)
  next
    case False
    with assms Pair show ?thesis
      by (intro exI [of _ False])
         (auto simp: valid_edit_def plan_entry_def planned_def get_or_def
               split: option.splits if_splits)
  qed
qed

lemma plan_fold_exact:
  "\<exists>evs new. ops (fst (foldl (plan_entry e pn spans) (st, anns) pe)) = ops st @ evs \<and>
      snd (foldl (plan_entry e pn spans) (st, anns) pe) = anns @ new \<and>
      (\<forall>x \<in> set evs. op_page x = pn) \<and>
      length (mark_calls evs) = length evs \<and>
      map fst (mark_calls evs) =
        map (\<lambda>v. (pn, fst (snd v), (1, 1, 1)))
          (List.map_filter (valid_edit (int_max_str_digits e) spans) pe) \<and>
      new = map (planned spans)
        (marked_edits (List.map_filter (valid_edit (int_max_str_digits e) spans) pe)
           (mark_calls evs))"
proof (induction pe arbitrary: st anns)
  case Nil
  show ?case by (simp add: map_filter_simps)
next
  case (Cons it pe)
  let ?f = "valid_edit (int_max_str_digits e) spans"
  obtain st1 anns1 where r: "plan_entry e pn spans (st, anns) it = (st1, anns1)"
    by (cases "plan_entry e pn spans (st, anns) it")
  from Cons.IH [of st1 anns1] obtain evs2 new2 where
    2: "ops (fst (foldl (plan_entry e pn spans) (st1, anns1) pe)) = ops st1 @ evs2"
       "snd (foldl (plan_entry e pn spans) (st1, anns1) pe) = anns1 @ new2"
       "\<forall>x \<in> set evs2. op_page x = pn"
       "length (mark_calls evs2) = length evs2"
       "map fst (mark_calls evs2) = map (\<lambda>v. (pn, fst (snd v), (1, 1, 1))) (List.map_filter ?f pe)"
       "new2 = map (planned spans) (marked_edits (List.map_filter ?f pe) (mark_calls evs2))"
    by blast
  show ?case
  proof (cases "?f it")
    case None
    from plan_entry_invalid [OF None, of pn st anns] r
    have "ops st1 = ops st" "anns1 = anns" by simp_all
    with 2 r None show ?thesis
      by (intro exI [of _ evs2] exI [of _ new2]) (simp add: map_filter_simps)
  next
    case (Some v)
    from plan_entry_valid [OF Some, of pn st anns] r obtain ok where
      1: "ops st1 = ops st @ [AddRedactAnnot pn (fst (snd v)) (1, 1, 1) ok]"
         "anns1 = anns @ (if ok then [planned spans v] else [])"
      by auto
    show ?thesis
      using 1 2 r Some
      by (intro exI [of _ "AddRedactAnnot pn (fst (snd v)) (1, 1, 1) ok # evs2"]
            exI [of _ "(if ok then [planned spans v] else []) @ new2"])
         (simp add: map_filter_simps)
  qed
qed

text \<open>One page.\<close>

lemma edit_page_unfold:
  assumes "foldl (plan_entry e pn spans) (st, []) pe = (st1, anns)"
  shows "edit_page e pn spans pe st =
     (if apply_redactions e (ops st1) pn
      then foldl (insert_entry e pn) (record_op (ApplyRedactions pn True) st1) anns
      else log_error (ErrorApplyingRedactions pn) (record_op (ApplyRedactions pn False) st1))"
  using assms by (simp add: edit_page_def)

lemma edit_page_trace:
  "\<exists>evs. ops (edit_page e pn spans pe st) = ops st @ evs \<and>
      (\<forall>x \<in> set evs. op_page x = pn) \<and>
      page_trace_ok evs \<and>
      edits_applied (int_max_str_digits e) spans pn pe evs"
proof -
  let ?valid = "List.map_filter (valid_edit (int_max_str_digits e) spans) pe"
  obtain st1 anns where r: "foldl (plan_entry e pn spans) (st, []) pe = (st1, anns)"
    by (cases "foldl (plan_entry e pn spans) (st, []) pe")
  from plan_fold_exact [of e pn spans st "[]" pe] r obtain pevs where
    1: "ops st1 = ops st @ pevs" "\<forall>x \<in> set pevs. op_page x = pn"
       "length (mark_calls pevs) = length pevs"
       "map fst (mark_calls pevs) = map (\<lambda>v. (pn, fst (snd v), (1, 1, 1))) ?valid"
       "anns = map (planned spans) (marked_edits ?valid (mark_calls pevs))"
    by auto
  from all_marks_no_others [OF 1(3)] have q: "commits pevs = []" "insert_calls pevs = []"
    by simp_all
  from plan_fold_trace [of e pn spans st "[]" pe] r 1(1)
  have mb: "marked_boxes pevs = map a_bbox anns" by auto
  show ?thesis
  proof (cases "apply_redactions e (ops st1) pn")
    case False
    with r have "edit_page e pn spans pe st =
        log_error (ErrorApplyingRedactions pn) (record_op (ApplyRedactions pn False) st1)"
      by (simp add: edit_page_unfold)
    with 1 q show ?thesis
      by (intro exI [of _ "pevs @ [ApplyRedactions pn False]"])
         (auto simp: page_trace_ok_def edits_applied_def Let_def commits_append
            insert_calls_append mark_calls_append)
  next
    case True
    with r have p: "edit_page e pn spans pe st =
        foldl (insert_entry e pn) (record_op (ApplyRedactions pn True) st1) anns"
      by (simp add: edit_page_unfold)
    from insert_fold_trace [of e pn "record_op (ApplyRedactions pn True) st1" anns]
    obtain ievs where
      2: "ops (foldl (insert_entry e pn) (record_op (ApplyRedactions pn True) st1) anns) =
            ops (record_op (ApplyRedactions pn True) st1) @ ievs"
         "\<forall>x \<in> set ievs. op_page x = pn" "length (insert_calls ievs) = length ievs"
         "insert_calls ievs =
            map (\<lambda>a. (pn, (a_bbox a ! 0, a_bbox a ! 3 - 1), a_new_text a, a_font a, a_size a, (0, 0, 0)))
              (filter (\<lambda>a. 4 \<le> length (a_bbox a)) anns)"
      by blast
    from all_inserts_no_marks [OF 2(3)] all_inserts_no_mark_calls [OF 2(3)]
    have 3: "marked_boxes ievs = []" "commits ievs = []" "mark_calls ievs = []"
      by simp_all
    have 4: "map (fst \<circ> snd) (insert_calls ievs) =
        map (\<lambda>b. (b ! 0, b ! 3 - 1)) (filter (\<lambda>b. 4 \<le> length b) (map a_bbox anns))"
      by (simp add: 2(4) filter_map comp_def)
    let ?evs = "pevs @ ApplyRedactions pn True # ievs"
    have a: "ops (edit_page e pn spans pe st) = ops st @ ?evs"
      using p 1(1) 2(1) by simp
    have b: "\<forall>x \<in> set ?evs. op_page x = pn"
      using 1(2) 2(2) by auto
    have c: "page_trace_ok ?evs"
      using q 3 4 mb
      by (simp add: page_trace_ok_def commits_append insert_calls_append marked_boxes_append)
    have d: "edits_applied (int_max_str_digits e) spans pn pe ?evs"
      using 1(4,5) q 3 2(4)
      by (simp add: edits_applied_def Let_def commits_append insert_calls_append
          mark_calls_append)
    from a b c d show ?thesis by blast
  qed
qed

lemma process_page_fst:
  "fst (process_page e edits doc st pn) =
     (case page_edits_of e edits doc pn of Inl err \<Rightarrow> Some err | Inr x \<Rightarrow> None)"
  by (simp add: process_page_def split: sum.split option.split)

lemma process_page_snd:
  "snd (process_page e edits doc st pn) =
     (case page_edits_of e edits doc pn of
        Inr (Some pe) \<Rightarrow> edit_page e pn (rederive_spans (doc ! pn)) pe st
      | _ \<Rightarrow> st)"
  by (simp add: process_page_def split: sum.split option.split)

lemma page_edits_of_obj:
  "page_edits_of e (JObj kvs) doc pn =
     (if \<not> load_page e doc pn then Inl (LoadPageFailed pn)
      else
        (case map_of kvs (str_nat pn) of
           None \<Rightarrow> Inr None
         | Some v \<Rightarrow>
             if \<not> get_text e doc pn then Inl (GetTextFailed pn)
             else (case v of JObj pe \<Rightarrow> Inr (Some pe) | _ \<Rightarrow> Inl (PageEditsAttributeError pn))))"
  by (auto simp: page_edits_of_def Let_def split: option.splits json.splits)

lemma edits_applied_nonempty: "edits_applied m spans p pe h \<Longrightarrow> h \<noteq> []"
  by (auto simp: edits_applied_def Let_def)

lemma process_page_trace:
  "\<exists>evs. ops (snd (process_page e edits doc st pn)) = ops st @ evs \<and>
      (\<forall>x \<in> set evs. op_page x = pn) \<and>
      page_trace_ok evs \<and>
      (case page_edits_of e edits doc pn of
         Inr (Some pe) \<Rightarrow>
           edits_applied (int_max_str_digits e) (rederive_spans (doc ! pn)) pn pe evs
       | _ \<Rightarrow> evs = [])"
proof (cases "page_edits_of e edits doc pn")
  case (Inl err)
  then show ?thesis by (simp add: process_page_snd page_trace_ok_def)
next
  case (Inr x)
  show ?thesis
  proof (cases x)
    case None
    with Inr show ?thesis by (simp add: process_page_snd page_trace_ok_def)
  next
    case (Some pe)
    from edit_page_trace [of e pn "rederive_spans (doc ! pn)" pe st] Inr Some
    show ?thesis by (simp add: process_page_snd)
  qed
qed

text \<open>All pages.\<close>

lemma page_loop_step_raised:
  "page_loop_step e edits doc (Some err, st) pn = (Some err, st)"
  by (simp add: page_loop_step_def)

lemma page_loop_step_running:
  "page_loop_step e edits doc (None, st) pn = process_page e edits doc st pn"
  by (simp add: page_loop_step_def)

lemma pages_loop_trace:
  fixes e edits doc n
  defines "r \<equiv> foldl (page_loop_step e edits doc) (None, \<lparr>ops = [], logs = []\<rparr>) [0..<n]"
  defines "h \<equiv> ops (snd r)"
  shows "(\<forall>x \<in> set h. op_page x < n) \<and>
     (\<forall>p. page_trace_ok (on_page p h)) \<and>
     (\<forall>p. on_page p h = [] \<or>
          (\<exists>pe. page_edits_of e edits doc p = Inr (Some pe) \<and>
                edits_applied (int_max_str_digits e) (rederive_spans (doc ! p)) p pe (on_page p h))) \<and>
     (fst r = None \<longrightarrow>
        (\<forall>p < n. \<not> isl (page_edits_of e edits doc p) \<and>
           (\<forall>pe. page_edits_of e edits doc p = Inr (Some pe) \<longrightarrow> on_page p h \<noteq> []))) \<and>
     (\<forall>err. fst r = Some err \<longrightarrow> (\<exists>p < n. page_edits_of e edits doc p = Inl err))"
  unfolding h_def r_def
proof (induction n)
  case 0
  show ?case by (simp add: on_page_def page_trace_ok_def)
next
  case (Suc n)
  define r where "r = foldl (page_loop_step e edits doc) (None, \<lparr>ops = [], logs = []\<rparr>) [0..<n]"
  have f: "foldl (page_loop_step e edits doc) (None, \<lparr>ops = [], logs = []\<rparr>) [0..<Suc n] =
      page_loop_step e edits doc r n"
    by (simp add: r_def)
  have IH: "\<forall>x \<in> set (ops (snd r)). op_page x < n"
    "\<And>p. page_trace_ok (on_page p (ops (snd r)))"
    "\<And>p. on_page p (ops (snd r)) = [] \<or>
          (\<exists>pe. page_edits_of e edits doc p = Inr (Some pe) \<and>
                edits_applied (int_max_str_digits e) (rederive_spans (doc ! p)) p pe
                  (on_page p (ops (snd r))))"
    "fst r = None \<Longrightarrow> p < n \<Longrightarrow> \<not> isl (page_edits_of e edits doc p)"
    "fst r = None \<Longrightarrow> p < n \<Longrightarrow> page_edits_of e edits doc p = Inr (Some pe) \<Longrightarrow>
       on_page p (ops (snd r)) \<noteq> []"
    "\<And>err. fst r = Some err \<Longrightarrow> \<exists>p < n. page_edits_of e edits doc p = Inl err"
    for p pe
    using Suc.IH by (simp_all add: r_def)
  obtain er st where r: "r = (er, st)" by (cases r)
  show ?case
  proof (cases er)
    case (Some err)
    with r have s: "page_loop_step e edits doc r n = r"
      by (simp add: page_loop_step_raised)
    from IH(6) [of err] r Some obtain p where "p < n" "page_edits_of e edits doc p = Inl err"
      by auto
    then have "\<exists>p < Suc n. page_edits_of e edits doc p = Inl err"
      using less_Suc_eq by blast
    with IH(1,2,3) r Some show ?thesis
      unfolding f s by (auto simp: less_Suc_eq)
  next
    case None
    with r have s: "page_loop_step e edits doc r n = process_page e edits doc st n"
      by (simp add: page_loop_step_running)
    from process_page_trace [of e edits doc st n] obtain evs where
      1: "ops (snd (process_page e edits doc st n)) = ops st @ evs"
         "\<forall>x \<in> set evs. op_page x = n" "page_trace_ok evs"
         "case page_edits_of e edits doc n of
            Inr (Some pe) \<Rightarrow>
              edits_applied (int_max_str_digits e) (rederive_spans (doc ! n)) n pe evs
          | _ \<Rightarrow> evs = []"
      by blast
    have st: "ops (snd r) = ops st" "fst r = None" using r None by simp_all
    have on_n: "on_page n (ops st) = []"
      using IH(1) st by (intro on_page_other) auto
    have on_n': "on_page n evs = evs"
      using 1(2) by (intro on_page_same)
    have other: "on_page p evs = []" if "p \<noteq> n" for p
      using 1(2) that by (intro on_page_other) auto
    have a: "\<forall>x \<in> set (ops st @ evs). op_page x < Suc n"
      using IH(1) 1(2) st by (auto simp: less_Suc_eq)
    have b: "page_trace_ok (on_page p (ops st @ evs))" for p
    proof (cases "p = n")
      case True
      with on_n on_n' 1(3) show ?thesis by (simp add: on_page_append)
    next
      case False
      with other [of p] IH(2) [of p] st show ?thesis by (simp add: on_page_append)
    qed
    have c: "on_page p (ops st @ evs) = [] \<or>
          (\<exists>pe. page_edits_of e edits doc p = Inr (Some pe) \<and>
                edits_applied (int_max_str_digits e) (rederive_spans (doc ! p)) p pe
                  (on_page p (ops st @ evs)))" for p
    proof (cases "p = n")
      case True
      with on_n on_n' 1(4) show ?thesis
        by (auto simp: on_page_append split: sum.splits option.splits)
    next
      case False
      with other [of p] IH(3) [of p] st show ?thesis by (simp add: on_page_append)
    qed
    have d: "\<not> isl (page_edits_of e edits doc p) \<and>
           (\<forall>pe. page_edits_of e edits doc p = Inr (Some pe) \<longrightarrow> on_page p (ops st @ evs) \<noteq> [])"
      if run: "fst (process_page e edits doc st n) = None" and p: "p < Suc n" for p
    proof (cases "p = n")
      case True
      from run have ni: "\<not> isl (page_edits_of e edits doc n)"
        by (auto simp: process_page_fst split: sum.splits)
      have "on_page n (ops st @ evs) \<noteq> []" if "page_edits_of e edits doc n = Inr (Some pe)" for pe
        using that 1(4) on_n on_n' edits_applied_nonempty by (auto simp: on_page_append)
      with ni True show ?thesis by simp
    next
      case False
      with p have "p < n" by simp
      with IH(4) [of p] IH(5) [of p] st other [OF False] show ?thesis
        by (auto simp: on_page_append)
    qed
    have g: "\<exists>p < Suc n. page_edits_of e edits doc p = Inl err"
      if "fst (process_page e edits doc st n) = Some err" for err
      using that by (auto simp: process_page_fst split: sum.splits)
    show ?thesis
      unfolding f s 1(1) using a b c d g by blast
  qed
qed

lemma apply_closed:
  "fitz_open e path = None \<Longrightarrow>
   apply_text_edits_to_pdf e path edits =
     (Inl OpenFailed, \<lparr>ops = [], logs = [FailedToOpenForEditing]\<rparr>)"
  by (simp add: apply_text_edits_to_pdf_def)

lemma apply_unreadable:
  "fitz_open e path = Some doc \<Longrightarrow> \<not> len_doc e doc \<Longrightarrow>
   apply_text_edits_to_pdf e path edits = (Inl LenFailed, \<lparr>ops = [], logs = []\<rparr>)"
  by (simp add: apply_text_edits_to_pdf_def)

lemma apply_open:
  assumes "fitz_open e path = Some doc" and "len_doc e doc"
  shows "ops (snd (apply_text_edits_to_pdf e path edits)) = ops (snd (process_pages e edits doc))"
    and "fst (apply_text_edits_to_pdf e path edits) =
      (case fst (process_pages e edits doc) of
         Some err \<Rightarrow> Inl err
       | None \<Rightarrow>
           (case doc_save e doc (ops (snd (process_pages e edits doc))) of
              None \<Rightarrow> Inl SaveFailed
            | Some bytes \<Rightarrow> if doc_close e doc then Inr bytes else Inl CloseFailed))"
  using assms
  by (cases "process_pages e edits doc";
      simp add: apply_text_edits_to_pdf_def split: option.split)+

lemma page_edits_of_error:
  "page_edits_of e edits doc p = Inl err \<Longrightarrow>
   err = LoadPageFailed p \<or> err = GetTextFailed p \<or> err = EditsTypeError p \<or>
   err = PageEditsAttributeError p"
  by (auto simp: page_edits_of_def Let_def split: if_splits option.splits bool.splits json.splits)

lemma process_pages_error:
  assumes "fst (process_pages e edits doc) = Some err"
  shows "err \<noteq> SaveFailed \<and> err \<noteq> CloseFailed"
proof -
  from pages_loop_trace [of e edits doc "length doc", folded process_pages_def] assms
  obtain p where "page_edits_of e edits doc p = Inl err" by blast
  from page_edits_of_error [OF this] show ?thesis by auto
qed

lemma pages_done_open:
  assumes "fitz_open e path = Some doc"
    and "pages_done (fst (apply_text_edits_to_pdf e path edits))"
  shows "len_doc e doc" and "fst (process_pages e edits doc) = None"
proof -
  show l: "len_doc e doc"
    using assms by (cases "len_doc e doc") (simp_all add: apply_unreadable pages_done_def)
  show "fst (process_pages e edits doc) = None"
  proof (cases "fst (process_pages e edits doc)")
    case None
    then show ?thesis .
  next
    case (Some err)
    with assms(2) process_pages_error [OF Some] show ?thesis
      by (simp add: apply_open(2) [OF assms(1) l] pages_done_def)
  qed
qed

text \<open>The calls of the whole operation, page by page.\<close>

lemma apply_trace:
  fixes e path edits
  defines "h \<equiv> ops (snd (apply_text_edits_to_pdf e path edits))"
  shows "(\<forall>p. page_trace_ok (on_page p h))"
    and "\<And>p. on_page p h \<noteq> [] \<Longrightarrow>
          \<exists>doc pe. fitz_open e path = Some doc \<and> p < length doc \<and>
            page_edits_of e edits doc p = Inr (Some pe) \<and>
            edits_applied (int_max_str_digits e) (rederive_spans (doc ! p)) p pe (on_page p h)"
proof -
  have "(\<forall>p. page_trace_ok (on_page p h)) \<and>
    (\<forall>p. on_page p h \<noteq> [] \<longrightarrow>
          (\<exists>doc pe. fitz_open e path = Some doc \<and> p < length doc \<and>
            page_edits_of e edits doc p = Inr (Some pe) \<and>
            edits_applied (int_max_str_digits e) (rederive_spans (doc ! p)) p pe (on_page p h)))"
  proof (cases "fitz_open e path")
    case None
    then show ?thesis
      by (simp add: h_def apply_closed on_page_def page_trace_ok_def)
  next
    case (Some doc)
    show ?thesis
    proof (cases "len_doc e doc")
      case False
      with Some show ?thesis
        by (simp add: h_def apply_unreadable on_page_def page_trace_ok_def)
    next
      case True
      have h: "h = ops (snd (process_pages e edits doc))"
        by (simp add: h_def apply_open(1) [OF Some True])
      note inv = pages_loop_trace [of e edits doc "length doc", folded process_pages_def, folded h]
      have "p < length doc" if "on_page p h \<noteq> []" for p
      proof -
        from that obtain x where "x \<in> set h" "op_page x = p"
          by (auto simp: on_page_def filter_empty_conv)
        with inv show ?thesis by auto
      qed
      with inv Some show ?thesis by auto
    qed
  qed
  then show "\<forall>p. page_trace_ok (on_page p h)"
    and "\<And>p. on_page p h \<noteq> [] \<Longrightarrow>
          \<exists>doc pe. fitz_open e path = Some doc \<and> p < length doc \<and>
            page_edits_of e edits doc p = Inr (Some pe) \<and>
            edits_applied (int_max_str_digits e) (rederive_spans (doc ! p)) p pe (on_page p h)"
    by blast+
qed

lemma apply_done:
  assumes "fitz_open e path = Some doc"
    and "pages_done (fst (apply_text_edits_to_pdf e path edits))"
    and "p < length doc"
  shows "\<not> isl (page_edits_of e edits doc p)"
    and "page_edits_of e edits doc p = Inr (Some pe) \<Longrightarrow>
         edits_applied (int_max_str_digits e) (rederive_spans (doc ! p)) p pe
           (on_page p (ops (snd (apply_text_edits_to_pdf e path edits))))"
proof -
  note d = pages_done_open [OF assms(1,2)]
  have h: "ops (snd (apply_text_edits_to_pdf e path edits)) = ops (snd (process_pages e edits doc))"
    by (simp add: apply_open(1) [OF assms(1) d(1)])
  note inv = pages_loop_trace [of e edits doc "length doc", folded process_pages_def]
  from inv d(2) assms(3) show "\<not> isl (page_edits_of e edits doc p)" by blast
  assume pe: "page_edits_of e edits doc p = Inr (Some pe)"
  with inv d(2) assms(3) have "on_page p (ops (snd (process_pages e edits doc))) \<noteq> []"
    by blast
  with inv pe show "edits_applied (int_max_str_digits e) (rederive_spans (doc ! p)) p pe
           (on_page p (ops (snd (apply_text_edits_to_pdf e path edits))))"
    unfolding h by (metis sum.inject(2) option.inject)
qed

lemma commits_one: "length (commits h) = 1 \<Longrightarrow> commits h = [True] \<or> commits h = [False]"
  by (cases "commits h") auto

lemma edits_applied_commit: "edits_applied m spans p pe h \<Longrightarrow> length (commits h) = 1"
  by (simp add: edits_applied_def Let_def)

lemma page_edits_of_obj_Some:
  "page_edits_of e (JObj kvs) doc p = Inr (Some pe) \<Longrightarrow> map_of kvs (str_nat p) = Some (JObj pe)"
  by (auto simp: page_edits_of_obj split: if_splits option.splits json.splits)

lemma page_edits_of_obj_entry:
  "map_of kvs (str_nat p) = Some v \<Longrightarrow> \<not> isl (page_edits_of e (JObj kvs) doc p) \<Longrightarrow>
   \<exists>pe. v = JObj pe \<and> page_edits_of e (JObj kvs) doc p = Inr (Some pe)"
  by (auto simp: page_edits_of_obj split: if_splits json.splits)

text \<open>
  C5. On every page, text is inserted only for boxes whose marking succeeded and only
  after a commit that succeeded: when the page's commit succeeded, the insertion points
  are, in order, those of the successfully marked boxes of the page (the boxes with four
  coordinates); when it failed or was never made, nothing is inserted on the page. A
  page has at most one commit; it has one only if it is a page of the document with an
  entry in the edit set, and it has one whenever it is such a page and the page loop
  ended without raising, whatever the marks, commits and insertions did on the other
  pages.
\<close>

theorem insert_needs_mark_and_commit:
  "let h = on_page p (ops (snd (apply_text_edits_to_pdf e path (JObj edits)))) in
     (commits h = [True] \<longrightarrow>
        map (fst \<circ> snd) (insert_calls h) =
          map (\<lambda>b. (b ! 0, b ! 3 - 1)) (filter (\<lambda>b. 4 \<le> length b) (marked_boxes h))) \<and>
     (commits h \<noteq> [True] \<longrightarrow> insert_calls h = []) \<and>
     (commits h = [] \<or> commits h = [True] \<or> commits h = [False]) \<and>
     (\<forall>doc. fitz_open e path = Some doc \<longrightarrow>
        (commits h \<noteq> [] \<longrightarrow> p < length doc \<and> map_of edits (str_nat p) \<noteq> None) \<and>
        (pages_done (fst (apply_text_edits_to_pdf e path (JObj edits))) \<and>
         p < length doc \<and> map_of edits (str_nat p) \<noteq> None \<longrightarrow> commits h \<noteq> []))"
proof -
  define h where "h = on_page p (ops (snd (apply_text_edits_to_pdf e path (JObj edits))))"
  note tr = apply_trace(2) [where e = e and path = path and edits = "JObj edits" and p = p,
      folded h_def]
  have 1: "page_trace_ok h"
    using apply_trace(1) [of e path "JObj edits"] by (simp add: h_def)
  have 3: "commits h = [] \<or> commits h = [True] \<or> commits h = [False]"
  proof (cases "h = []")
    case True
    then show ?thesis by simp
  next
    case False
    from tr [OF False] edits_applied_commit have "length (commits h) = 1" by blast
    with commits_one show ?thesis by blast
  qed
  have 4: "p < length doc \<and> map_of edits (str_nat p) \<noteq> None"
    if o: "fitz_open e path = Some doc" and "commits h \<noteq> []" for doc
  proof -
    from that(2) have "h \<noteq> []" by auto
    from tr [OF this] o page_edits_of_obj_Some
    show "p < length doc \<and> map_of edits (str_nat p) \<noteq> None" by fastforce
  qed
  have 5: "commits h \<noteq> []"
    if o: "fitz_open e path = Some doc"
      and d: "pages_done (fst (apply_text_edits_to_pdf e path (JObj edits)))"
      and a: "p < length doc \<and> map_of edits (str_nat p) \<noteq> None" for doc
  proof -
    from a obtain v where v: "map_of edits (str_nat p) = Some v" by auto
    from a apply_done(1) [OF o d] have "\<not> isl (page_edits_of e (JObj edits) doc p)" by simp
    from page_edits_of_obj_entry [OF v this] obtain pe where
      "page_edits_of e (JObj edits) doc p = Inr (Some pe)" by blast
    from apply_done(2) [OF o d _ this] a edits_applied_commit
    have "length (commits h) = 1" unfolding h_def by blast
    then show "commits h \<noteq> []" by auto
  qed
  from 4 5 have 6: "\<forall>doc. fitz_open e path = Some doc \<longrightarrow>
        (commits h \<noteq> [] \<longrightarrow> p < length doc \<and> map_of edits (str_nat p) \<noteq> None) \<and>
        (pages_done (fst (apply_text_edits_to_pdf e path (JObj edits))) \<and>
         p < length doc \<and> map_of edits (str_nat p) \<noteq> None \<longrightarrow> commits h \<noteq> [])"
    by blast
  from 1 have 7: "commits h = [True] \<longrightarrow>
        map (fst \<circ> snd) (insert_calls h) =
          map (\<lambda>b. (b ! 0, b ! 3 - 1)) (filter (\<lambda>b. 4 \<le> length b) (marked_boxes h))"
    and 8: "commits h \<noteq> [True] \<longrightarrow> insert_calls h = []"
    by (simp_all add: page_trace_ok_def)
  show ?thesis
    unfolding Let_def h_def [symmetric]
    using 3 6 7 8 by blast
qed

text \<open>
  C8. A page whose index has no entry in the edit set receives no call at all (no
  mark, no commit, no insertion), and with the empty edit set no call is made on any
  page.
\<close>

theorem pages_without_edits_untouched:
  "(map_of edits (str_nat p) = None \<longrightarrow>
      on_page p (ops (snd (apply_text_edits_to_pdf e path (JObj edits)))) = []) \<and>
   ops (snd (apply_text_edits_to_pdf e path (JObj []))) = []"
proof -
  have a: "on_page p (ops (snd (apply_text_edits_to_pdf e path (JObj edits)))) = []"
    if n: "map_of edits (str_nat p) = None" for edits p
  proof (rule ccontr)
    assume "on_page p (ops (snd (apply_text_edits_to_pdf e path (JObj edits)))) \<noteq> []"
    from apply_trace(2) [OF this] page_edits_of_obj_Some n show False by fastforce
  qed
  have "on_page (op_page x) (ops (snd (apply_text_edits_to_pdf e path (JObj [])))) = []" for x
    by (rule a) simp
  then have "x \<notin> set (ops (snd (apply_text_edits_to_pdf e path (JObj []))))" for x
    by (auto simp: on_page_def filter_empty_conv)
  then have b: "ops (snd (apply_text_edits_to_pdf e path (JObj []))) = []"
    by (cases "ops (snd (apply_text_edits_to_pdf e path (JObj [])))") auto
  from a b show ?thesis by blast
qed

text \<open>
  C7. On a page that is read (\<^verbatim>\<open>doc[i]\<close> and \<^verbatim>\<open>get_text\<close> return), whose entry
  is a dict and whose commit succeeded, the calls after the commit are exactly one
  \<^verbatim>\<open>insert_text\<close> for each plan entry whose box has four coordinates, in plan order,
  at the point \<open>(x0, y1 - 1)\<close>, with the entry's replacement text, font and size, and
  with the color \<open>(0, 0, 0)\<close>; the entry's own color is not used.
\<close>

theorem replacement_drawn_at_anchor_in_black:
  assumes "load_page e doc pn" and "get_text e doc pn"
    and "map_of edits (str_nat pn) = Some (JObj pe)"
    and "foldl (plan_entry e pn (rederive_spans (doc ! pn))) (st, []) pe = (st1, annotations)"
    and "apply_redactions e (ops st1) pn"
  shows "\<exists>evs. ops (snd (process_page e (JObj edits) doc st pn)) =
           ops st1 @ ApplyRedactions pn True # evs \<and>
     length (insert_calls evs) = length evs \<and>
     insert_calls evs =
       map (\<lambda>a. (pn, (a_bbox a ! 0, a_bbox a ! 3 - 1), a_new_text a, a_font a, a_size a, (0, 0, 0)))
         (filter (\<lambda>a. 4 \<le> length (a_bbox a)) annotations)"
proof -
  from assms(1-3) have "page_edits_of e (JObj edits) doc pn = Inr (Some pe)"
    by (simp add: page_edits_of_obj)
  then have "snd (process_page e (JObj edits) doc st pn) =
      foldl (insert_entry e pn) (record_op (ApplyRedactions pn True) st1) annotations"
    using assms(4,5) by (simp add: process_page_snd edit_page_unfold)
  with insert_fold_trace [of e pn "record_op (ApplyRedactions pn True) st1" annotations]
  show ?thesis by auto
qed

lemma py_int_limit: "py_int m k = Some v \<Longrightarrow> py_int 0 k = Some v"
  by (auto simp: py_int_def split: option.splits if_splits)

lemma noncanonical_key:
  assumes "py_int m pk = Some v" and "pk \<noteq> str_nat (nat v)"
  shows "str_nat i \<noteq> pk"
proof
  assume "str_nat i = pk"
  with py_int_str_nat [of i] py_int_limit [OF assms(1)] have "v = int i" by simp
  with assms(2) \<open>str_nat i = pk\<close> show False by simp
qed

lemma page_edits_of_key_cong:
  "map_of edits (str_nat pn) = map_of edits' (str_nat pn) \<Longrightarrow>
   page_edits_of e (JObj edits) doc pn = page_edits_of e (JObj edits') doc pn"
  by (simp add: page_edits_of_obj)

lemma apply_key_cong:
  assumes "fitz_open e path = Some doc"
    and "\<forall>i < length doc. map_of edits (str_nat i) = map_of edits' (str_nat i)"
  shows "apply_text_edits_to_pdf e path (JObj edits) = apply_text_edits_to_pdf e path (JObj edits')"
proof -
  have "process_pages e (JObj edits) doc = process_pages e (JObj edits') doc"
    unfolding process_pages_def
  proof (intro foldl_cong refl)
    fix acc pn
    assume "pn \<in> set [0..<length doc]"
    with assms(2) have "page_edits_of e (JObj edits) doc pn = page_edits_of e (JObj edits') doc pn"
      by (intro page_edits_of_key_cong) simp
    then show "page_loop_step e (JObj edits) doc acc pn = page_loop_step e (JObj edits') doc acc pn"
      by (simp add: page_loop_step_def process_page_def split: prod.split option.split)
  qed
  with assms(1) show ?thesis
    by (simp add: apply_text_edits_to_pdf_def)
qed

lemma map_of_without:
  "k \<noteq> pk \<Longrightarrow> map_of (xs @ (pk, v) # ys) k = map_of (xs @ ys) k"
  by (simp add: map_add_def split: option.split)

lemma py_int_examples:
  "py_int m ''05'' = Some 5" "py_int m '' 0'' = Some 0" "py_int m ''+1'' = Some 1"
  by (simp_all add: py_int_def int_literal_def is_space_def is_digit_def digit_val_def
      digits_value_def)

lemma str_nat_small: "str_nat 0 = ''0''" "str_nat (Suc 0) = ''1''" "str_nat 5 = ''5''"
  by code_simp+

text \<open>
  C10. The outcome depends on the edit set only through its values at the keys
  \<open>str_nat i\<close> for the page indices \<open>i\<close> of the document. A page key that
  \<^verbatim>\<open>int\<close> accepts but that is not the canonical numeral of its value can be removed
  without any change, also of the log. The keys \<^verbatim>\<open>"05"\<close>, \<^verbatim>\<open>" 0"\<close> and
  \<^verbatim>\<open>"+1"\<close> are such keys: \<^verbatim>\<open>int\<close> reads them as 5, 0 and 1, as it does for a
  span key.
\<close>

theorem page_key_matched_as_string:
  "(\<forall>doc. fitz_open e path = Some doc \<and>
       (\<forall>i < length doc. map_of edits (str_nat i) = map_of edits' (str_nat i)) \<longrightarrow>
       apply_text_edits_to_pdf e path (JObj edits) = apply_text_edits_to_pdf e path (JObj edits')) \<and>
   (py_int m pk = Some v \<and> pk \<noteq> str_nat (nat v) \<longrightarrow>
      apply_text_edits_to_pdf e path (JObj (edits1 @ (pk, pe) # edits2)) =
      apply_text_edits_to_pdf e path (JObj (edits1 @ edits2))) \<and>
   (py_int m ''05'' = Some 5 \<and> ''05'' \<noteq> str_nat 5) \<and>
   (py_int m '' 0'' = Some 0 \<and> '' 0'' \<noteq> str_nat 0) \<and>
   (py_int m ''+1'' = Some 1 \<and> ''+1'' \<noteq> str_nat 1)"
proof -
  have a: "apply_text_edits_to_pdf e path (JObj (edits1 @ (pk, pe) # edits2)) =
      apply_text_edits_to_pdf e path (JObj (edits1 @ edits2))"
    if h: "py_int m pk = Some v" "pk \<noteq> str_nat (nat v)"
  proof (cases "fitz_open e path")
    case None
    then show ?thesis by (simp add: apply_closed)
  next
    case (Some doc)
    show ?thesis
      using noncanonical_key [OF h]
      by (intro apply_key_cong [OF Some] allI impI map_of_without) simp
  qed
  show ?thesis
    using a apply_key_cong [of e path _ edits edits']
    by (simp add: py_int_examples str_nat_small)
qed

text \<open>When the operations raise.\<close>

lemma extract_step_raised: "foldl (extract_step e doc) (Inl err) pns = Inl err"
  by (induction pns) (simp_all add: extract_step_def)

lemma extract_fold_raises:
  "isl (foldl (extract_step e doc) (Inr acc) pns) \<longleftrightarrow>
     (\<exists>pn \<in> set pns. \<not> load_page e doc pn \<or> \<not> get_text e doc pn)"
proof (induction pns arbitrary: acc)
  case Nil
  show ?case by simp
next
  case (Cons pn pns)
  show ?case
  proof (cases "load_page e doc pn \<and> get_text e doc pn")
    case True
    then have "extract_step e doc (Inr acc) pn = Inr (acc @ [extract_page (doc ! pn)])"
      by (simp add: extract_step_def page_text_def)
    with Cons.IH [of "acc @ [extract_page (doc ! pn)]"] True show ?thesis by simp
  next
    case False
    then obtain err where "extract_step e doc (Inr acc) pn = Inl err"
      by (cases "load_page e doc pn") (auto simp: extract_step_def page_text_def)
    with False show ?thesis by (auto simp: extract_step_raised)
  qed
qed

lemma process_pages_raises:
  "fst (process_pages e edits doc) \<noteq> None \<longleftrightarrow>
     (\<exists>pn < length doc. isl (page_edits_of e edits doc pn))"
proof
  assume "fst (process_pages e edits doc) \<noteq> None"
  then obtain err where "fst (process_pages e edits doc) = Some err" by auto
  with pages_loop_trace [of e edits doc "length doc", folded process_pages_def]
  obtain p where "p < length doc" "page_edits_of e edits doc p = Inl err" by blast
  then show "\<exists>pn < length doc. isl (page_edits_of e edits doc pn)" by auto
next
  assume "\<exists>pn < length doc. isl (page_edits_of e edits doc pn)"
  with pages_loop_trace [of e edits doc "length doc", folded process_pages_def]
  show "fst (process_pages e edits doc) \<noteq> None" by blast
qed

lemma page_edits_of_raises:
  "isl (page_edits_of e edits doc pn) \<longleftrightarrow>
     \<not> load_page e doc pn \<or> py_contains edits (str_nat pn) = None \<or>
     (py_contains edits (str_nat pn) = Some True \<and>
      (\<not> get_text e doc pn \<or> (\<forall>pe. py_getitem edits (str_nat pn) \<noteq> Some (JObj pe))))"
  by (auto simp: page_edits_of_def Let_def split: option.splits bool.splits json.splits)

text \<open>
  C6 (amended). Extraction raises exactly when the document does not open, or it opens
  and \<^verbatim>\<open>len(doc)\<close> raises, or \<^verbatim>\<open>doc[i]\<close> or \<^verbatim>\<open>get_text\<close> raises on a page,
  or \<^verbatim>\<open>doc.close\<close> raises. Applying edits raises exactly when the document does
  not open, or it opens and \<^verbatim>\<open>len(doc)\<close> raises, or on some page \<^verbatim>\<open>doc[i]\<close>
  raises, the test \<^verbatim>\<open>page_key in edits\<close> raises, or the key is in \<^verbatim>\<open>edits\<close> and
  \<^verbatim>\<open>get_text\<close> raises or the entry is not a dict, or \<^verbatim>\<open>doc.save\<close> raises, or
  \<^verbatim>\<open>doc.close\<close> raises. Failures of marking, committing and inserting are part of
  the library parameter \<open>e\<close>, which is arbitrary, and do not occur in the condition.
\<close>

theorem raises_only_on_open_or_save:
  "(isl (fst (extract_text_from_pdf e path)) \<longleftrightarrow>
      fitz_open e path = None \<or>
      (\<exists>doc. fitz_open e path = Some doc \<and>
         (\<not> len_doc e doc \<or>
          (\<exists>pn < length doc. \<not> load_page e doc pn \<or> \<not> get_text e doc pn) \<or>
          \<not> doc_close e doc))) \<and>
   (isl (fst (apply_text_edits_to_pdf e path edits)) \<longleftrightarrow>
      fitz_open e path = None \<or>
      (\<exists>doc. fitz_open e path = Some doc \<and>
         (\<not> len_doc e doc \<or>
          (\<exists>pn < length doc.
             \<not> load_page e doc pn \<or> py_contains edits (str_nat pn) = None \<or>
             (py_contains edits (str_nat pn) = Some True \<and>
              (\<not> get_text e doc pn \<or> (\<forall>pe. py_getitem edits (str_nat pn) \<noteq> Some (JObj pe))))) \<or>
          doc_save e doc (ops (snd (apply_text_edits_to_pdf e path edits))) = None \<or>
          \<not> doc_close e doc)))"
proof (cases "fitz_open e path")
  case None
  then show ?thesis
    by (simp add: apply_closed extract_text_from_pdf_def)
next
  case (Some doc)
  show ?thesis
  proof (cases "len_doc e doc")
    case False
    with Some show ?thesis
      by (simp add: apply_unreadable extract_text_from_pdf_def)
  next
    case True
    have x: "isl (fst (extract_text_from_pdf e path)) \<longleftrightarrow>
        (\<exists>pn < length doc. \<not> load_page e doc pn \<or> \<not> get_text e doc pn) \<or> \<not> doc_close e doc"
      using Some True extract_fold_raises [of e doc "[]" "[0..<length doc]"]
      by (cases "foldl (extract_step e doc) (Inr []) [0..<length doc]")
         (auto simp: extract_text_from_pdf_def)
    have a: "isl (fst (apply_text_edits_to_pdf e path edits)) \<longleftrightarrow>
        (\<exists>pn < length doc. isl (page_edits_of e edits doc pn)) \<or>
        doc_save e doc (ops (snd (apply_text_edits_to_pdf e path edits))) = None \<or>
        \<not> doc_close e doc"
      using process_pages_raises [of e edits doc]
      by (cases "fst (process_pages e edits doc)")
         (auto simp: apply_open [OF Some True] split: option.splits)
    from x a Some True show ?thesis
      by (simp add: page_edits_of_raises)
  qed
qed

text \<open>
  A document that opens and whose \<^verbatim>\<open>len\<close> raises makes both operations raise, and
  so does, for applying, a page entry that is a list; in neither case did opening or
  saving fail.
\<close>

theorem raises_when_unreadable:
  "fitz_open locked_lib ''in.pdf'' = Some hello_doc \<and>
   fst (extract_text_from_pdf locked_lib ''in.pdf'') = Inl LenFailed \<and>
   fst (apply_text_edits_to_pdf locked_lib ''in.pdf'' (JObj [])) = Inl LenFailed \<and>
   fitz_open (sample_lib True True) ''in.pdf'' = Some hello_doc \<and>
   fst (apply_text_edits_to_pdf (sample_lib True True) ''in.pdf''
          (JObj [(''0'', JArr [JStr ''Bonjour''])])) = Inl (PageEditsAttributeError 0)"
  by code_simp

text \<open>The JSON form.\<close>

lemma those_map_decoded:
  assumes "\<And>x. d (g x) = Some x"
  shows "those (map (\<lambda>x. d (g x)) xs) = Some xs"
  using assms by (induction xs) simp_all

lemma dec_list_enc:
  assumes "\<And>x. d (g x) = Some x"
  shows "dec_list d (JArr (map g xs)) = Some xs"
  using those_map_decoded [where d = d and g = g and xs = xs] assms
  by (simp add: dec_list_def comp_def)

lemma dec_fragment_enc: "dec_fragment (enc_fragment f) = Some f"
proof -
  have "dec_list dec_num (JArr (map JNum (f_bbox f))) = Some (f_bbox f)"
    by (rule dec_list_enc) (simp add: dec_num_def)
  then show ?thesis
    by (simp add: dec_fragment_def enc_fragment_def dec_member_def dec_str_def dec_num_def
        dec_int_def)
qed

text \<open>
  C9. Decoding the JSON form of a fragment model gives the model back: the same pages,
  the same fragments on every page, and the same text, bbox, font, size and color in
  every fragment. The JSON form and its decoding are those of section 6 of the
  specification (\<open>enc_model\<close>, \<open>dec_model\<close>); the model is the \<open>extraction\<close> that
  \<^verbatim>\<open>extract_text_from_pdf\<close> returns.
\<close>

theorem json_round_trip: "dec_model (enc_model m) = Some m"
proof -
  have page: "dec_list dec_fragment (JArr (map enc_fragment p)) = Some p" for p
    by (rule dec_list_enc) (rule dec_fragment_enc)
  have "dec_list (dec_list dec_fragment)
      (JArr (map (\<lambda>p. JArr (map enc_fragment p)) (pages m))) = Some (pages m)"
    by (rule dec_list_enc) (rule page)
  then show ?thesis
    by (simp add: dec_model_def enc_model_def)
qed

lemma plan_entry_skipped:
  assumes "skipped (int_max_str_digits e) spans (fst it)"
  shows "ops (fst (plan_entry e pn spans (st, anns) it)) = ops st"
    and "snd (plan_entry e pn spans (st, anns) it) = anns"
  using assms by (cases it; auto simp: skipped_def plan_entry_def split: option.splits)+

lemma plan_entry_cong:
  assumes "ops st = ops st'"
  shows "ops (fst (plan_entry e pn spans (st, anns) it)) =
         ops (fst (plan_entry e pn spans (st', anns) it))"
    and "snd (plan_entry e pn spans (st, anns) it) = snd (plan_entry e pn spans (st', anns) it)"
  using assms by (cases it; simp add: plan_entry_def split: option.splits)+

lemma plan_fold_filter:
  assumes "\<forall>it \<in> set pe. \<not> keep it \<longrightarrow> skipped (int_max_str_digits e) spans (fst it)"
    and "ops st = ops st'"
  shows "ops (fst (foldl (plan_entry e pn spans) (st, anns) pe)) =
         ops (fst (foldl (plan_entry e pn spans) (st', anns) (filter keep pe))) \<and>
         snd (foldl (plan_entry e pn spans) (st, anns) pe) =
         snd (foldl (plan_entry e pn spans) (st', anns) (filter keep pe))"
  using assms
proof (induction pe arbitrary: st st' anns)
  case Nil
  then show ?case by simp
next
  case (Cons it pe)
  obtain st1 anns1 where r: "plan_entry e pn spans (st, anns) it = (st1, anns1)"
    by (cases "plan_entry e pn spans (st, anns) it")
  show ?case
  proof (cases "keep it")
    case True
    obtain st2 anns2 where r2: "plan_entry e pn spans (st', anns) it = (st2, anns2)"
      by (cases "plan_entry e pn spans (st', anns) it")
    from plan_entry_cong [OF Cons.prems(2), of e pn spans anns it] r r2
    have "ops st1 = ops st2" "anns1 = anns2" by simp_all
    with Cons.IH [of st1 st2 anns1] Cons.prems(1) True r r2 show ?thesis by simp
  next
    case False
    with Cons.prems(1) have "skipped (int_max_str_digits e) spans (fst it)" by simp
    from plan_entry_skipped [OF this, of pn st anns] r Cons.prems(2)
    have "ops st1 = ops st'" "anns1 = anns" by simp_all
    with Cons.IH [of st1 st' anns] Cons.prems(1) False r show ?thesis by simp
  qed
qed

lemma insert_entry_cong:
  "ops st = ops st' \<Longrightarrow> ops (insert_entry e pn st a) = ops (insert_entry e pn st' a)"
  by (simp add: insert_entry_def Let_def)

lemma insert_fold_cong:
  "ops st = ops st' \<Longrightarrow>
   ops (foldl (insert_entry e pn) st anns) = ops (foldl (insert_entry e pn) st' anns)"
proof (induction anns arbitrary: st st')
  case Nil
  then show ?case by simp
next
  case (Cons a anns)
  from Cons.IH [OF insert_entry_cong [OF Cons.prems, of e pn a]] show ?case by simp
qed

lemma edit_page_filter:
  assumes "ops st = ops st'"
    and "\<forall>it \<in> set pe. \<not> keep it \<longrightarrow> skipped (int_max_str_digits e) spans (fst it)"
  shows "ops (edit_page e pn spans pe st) = ops (edit_page e pn spans (filter keep pe) st')"
proof -
  obtain st1 anns where r: "foldl (plan_entry e pn spans) (st, []) pe = (st1, anns)"
    by (cases "foldl (plan_entry e pn spans) (st, []) pe")
  obtain st2 anns2 where
    r2: "foldl (plan_entry e pn spans) (st', []) (filter keep pe) = (st2, anns2)"
    by (cases "foldl (plan_entry e pn spans) (st', []) (filter keep pe)")
  from plan_fold_filter [OF assms(2,1), of pn "[]"] r r2
  have eq: "ops st1 = ops st2" "anns = anns2" by simp_all
  have i: "ops (foldl (insert_entry e pn) (record_op (ApplyRedactions pn True) st1) anns) =
           ops (foldl (insert_entry e pn) (record_op (ApplyRedactions pn True) st2) anns)"
    by (rule insert_fold_cong) (simp add: eq)
  show ?thesis
    unfolding edit_page_unfold [OF r] edit_page_unfold [OF r2]
    using eq i by simp
qed

lemma process_page_filter:
  assumes "ops st = ops st'"
    and "page_edits_of e edits' doc pn =
           map_sum id (map_option (filter keep)) (page_edits_of e edits doc pn)"
    and "\<forall>pe. page_edits_of e edits doc pn = Inr (Some pe) \<longrightarrow>
           (\<forall>it \<in> set pe. \<not> keep it \<longrightarrow>
              skipped (int_max_str_digits e) (rederive_spans (doc ! pn)) (fst it))"
  shows "fst (process_page e edits doc st pn) = fst (process_page e edits' doc st' pn)"
    and "ops (snd (process_page e edits doc st pn)) = ops (snd (process_page e edits' doc st' pn))"
proof -
  show "fst (process_page e edits doc st pn) = fst (process_page e edits' doc st' pn)"
    by (simp add: process_page_fst assms(2) split: sum.split)
  show "ops (snd (process_page e edits doc st pn)) = ops (snd (process_page e edits' doc st' pn))"
  proof (cases "page_edits_of e edits doc pn")
    case (Inl err)
    with assms(1,2) show ?thesis by (simp add: process_page_snd)
  next
    case (Inr x)
    show ?thesis
    proof (cases x)
      case None
      with Inr assms(1,2) show ?thesis by (simp add: process_page_snd)
    next
      case (Some pe)
      with Inr assms(3)
      have "\<forall>it \<in> set pe. \<not> keep it \<longrightarrow>
          skipped (int_max_str_digits e) (rederive_spans (doc ! pn)) (fst it)"
        by simp
      from edit_page_filter [OF assms(1) this, of pn] Inr Some assms(2)
      show ?thesis by (simp add: process_page_snd)
    qed
  qed
qed

lemma pages_fold_filter:
  assumes "fst acc = fst acc'" and "ops (snd acc) = ops (snd acc')"
    and "\<forall>pn \<in> set pns.
           page_edits_of e edits' doc pn =
             map_sum id (map_option (filter (keep pn))) (page_edits_of e edits doc pn) \<and>
           (\<forall>pe. page_edits_of e edits doc pn = Inr (Some pe) \<longrightarrow>
              (\<forall>it \<in> set pe. \<not> keep pn it \<longrightarrow>
                 skipped (int_max_str_digits e) (rederive_spans (doc ! pn)) (fst it)))"
  shows "fst (foldl (page_loop_step e edits doc) acc pns) =
         fst (foldl (page_loop_step e edits' doc) acc' pns) \<and>
         ops (snd (foldl (page_loop_step e edits doc) acc pns)) =
         ops (snd (foldl (page_loop_step e edits' doc) acc' pns))"
  using assms
proof (induction pns arbitrary: acc acc')
  case Nil
  then show ?case by simp
next
  case (Cons pn pns)
  obtain er st where a: "acc = (er, st)" by (cases acc)
  obtain er' st' where a': "acc' = (er', st')" by (cases acc')
  from Cons.prems(1,2) a a' have eq: "er' = er" "ops st = ops st'" by simp_all
  have "fst (page_loop_step e edits doc acc pn) = fst (page_loop_step e edits' doc acc' pn) \<and>
        ops (snd (page_loop_step e edits doc acc pn)) =
        ops (snd (page_loop_step e edits' doc acc' pn))"
  proof (cases er)
    case (Some err)
    with a a' eq show ?thesis by (simp add: page_loop_step_raised)
  next
    case None
    from Cons.prems(3) have
      "page_edits_of e edits' doc pn =
         map_sum id (map_option (filter (keep pn))) (page_edits_of e edits doc pn)"
      "\<forall>pe. page_edits_of e edits doc pn = Inr (Some pe) \<longrightarrow>
              (\<forall>it \<in> set pe. \<not> keep pn it \<longrightarrow>
                 skipped (int_max_str_digits e) (rederive_spans (doc ! pn)) (fst it))"
      by (simp_all add: id_def)
    from process_page_filter [OF eq(2) this] None a a' eq show ?thesis
      by (simp add: page_loop_step_running)
  qed
  with Cons.IH [of "page_loop_step e edits doc acc pn" "page_loop_step e edits' doc acc' pn"]
    Cons.prems(3)
  show ?case by simp
qed

lemma apply_filter:
  assumes "fitz_open e path = Some doc"
    and "\<forall>pn < length doc.
           page_edits_of e edits' doc pn =
             map_sum id (map_option (filter (keep pn))) (page_edits_of e edits doc pn) \<and>
           (\<forall>pe. page_edits_of e edits doc pn = Inr (Some pe) \<longrightarrow>
              (\<forall>it \<in> set pe. \<not> keep pn it \<longrightarrow>
                 skipped (int_max_str_digits e) (rederive_spans (doc ! pn)) (fst it)))"
  shows "fst (apply_text_edits_to_pdf e path edits) = fst (apply_text_edits_to_pdf e path edits') \<and>
         ops (snd (apply_text_edits_to_pdf e path edits)) =
         ops (snd (apply_text_edits_to_pdf e path edits'))"
proof (cases "len_doc e doc")
  case False
  with assms(1) show ?thesis by (simp add: apply_unreadable)
next
  case True
  have "fst (process_pages e edits doc) = fst (process_pages e edits' doc) \<and>
        ops (snd (process_pages e edits doc)) = ops (snd (process_pages e edits' doc))"
    unfolding process_pages_def
    using assms(2) by (intro pages_fold_filter [where keep = keep]) simp_all
  then show ?thesis
    by (simp add: apply_open [OF assms(1) True] split: option.split)
qed

lemma map_of_filter_key:
  "map_of (filter (\<lambda>(k, v). P k) xs) k = (if P k then map_of xs k else None)"
  by (induction xs) auto

lemma map_of_map_value:
  "map_of (map (\<lambda>(k, v). (k, f k v)) xs) k = map_option (f k) (map_of xs k)"
  by (induction xs) auto

lemma page_edits_of_filter_items:
  assumes "map_of edits' (str_nat pn) = map_option (filter_items keep) (map_of edits (str_nat pn))"
  shows "page_edits_of e (JObj edits') doc pn =
     map_sum id (map_option (filter (\<lambda>(k, t). keep k))) (page_edits_of e (JObj edits) doc pn)"
  using assms
  by (auto simp: page_edits_of_obj filter_items_def split: option.splits json.splits)

lemma parses_nonneg_str_nat: "parses_nonneg 0 (str_nat n)"
  by (simp add: parses_nonneg_def py_int_str_nat)

lemma drop_malformed_same:
  "fst (apply_text_edits_to_pdf e path (JObj edits)) =
     fst (apply_text_edits_to_pdf e path (JObj (drop_malformed (int_max_str_digits e) edits))) \<and>
   ops (snd (apply_text_edits_to_pdf e path (JObj edits))) =
     ops (snd (apply_text_edits_to_pdf e path (JObj (drop_malformed (int_max_str_digits e) edits))))"
proof (cases "fitz_open e path")
  case None
  then show ?thesis by (simp add: apply_closed)
next
  case (Some doc)
  show ?thesis
  proof (rule apply_filter [OF Some, where keep = "\<lambda>pn (k, t). parses_nonneg (int_max_str_digits e) k"],
      intro allI impI conjI ballI)
    fix pn
    show "page_edits_of e (JObj (drop_malformed (int_max_str_digits e) edits)) doc pn =
        map_sum id (map_option (filter (\<lambda>(k, t). parses_nonneg (int_max_str_digits e) k)))
          (page_edits_of e (JObj edits) doc pn)"
      by (rule page_edits_of_filter_items)
         (simp add: drop_malformed_def map_of_map_value map_of_filter_key parses_nonneg_str_nat)
  next
    fix pn :: nat and pe :: "(string \<times> json) list" and it :: "string \<times> json"
    assume "\<not> (case it of (k, t) \<Rightarrow> parses_nonneg (int_max_str_digits e) k)"
    then show "skipped (int_max_str_digits e) (rederive_spans (doc ! pn)) (fst it)"
      by (cases it) (auto simp: skipped_def parses_nonneg_def split: option.splits)
  qed
qed

lemma missing_page_str_nat: "n < length doc \<Longrightarrow> \<not> missing_page doc (str_nat n)"
  by (simp add: missing_page_def py_int_str_nat)

lemma in_range_edits_str_nat:
  "in_range_edits m doc (str_nat n) v =
     filter_items (\<lambda>k. \<not> out_of_range m (rederive_spans (doc ! n)) k) v"
  by (simp add: in_range_edits_def py_int_str_nat)

lemma drop_out_of_range_same:
  assumes "fitz_open e path = Some doc"
  shows "fst (apply_text_edits_to_pdf e path (JObj edits)) =
     fst (apply_text_edits_to_pdf e path (JObj (drop_out_of_range (int_max_str_digits e) doc edits))) \<and>
   ops (snd (apply_text_edits_to_pdf e path (JObj edits))) =
     ops (snd (apply_text_edits_to_pdf e path
       (JObj (drop_out_of_range (int_max_str_digits e) doc edits))))"
proof (rule apply_filter [OF assms, where keep =
      "\<lambda>pn (k, t). \<not> out_of_range (int_max_str_digits e) (rederive_spans (doc ! pn)) k"],
    intro allI impI conjI ballI)
  fix pn
  assume "pn < length doc"
  then show "page_edits_of e (JObj (drop_out_of_range (int_max_str_digits e) doc edits)) doc pn =
      map_sum id
        (map_option (filter (\<lambda>(k, t).
           \<not> out_of_range (int_max_str_digits e) (rederive_spans (doc ! pn)) k)))
        (page_edits_of e (JObj edits) doc pn)"
    by (intro page_edits_of_filter_items)
       (simp add: drop_out_of_range_def map_of_map_value map_of_filter_key missing_page_str_nat
          in_range_edits_str_nat [abs_def])
next
  fix pn :: nat and pe :: "(string \<times> json) list" and it :: "string \<times> json"
  assume "\<not> (case it of (k, t) \<Rightarrow>
      \<not> out_of_range (int_max_str_digits e) (rederive_spans (doc ! pn)) k)"
  then show "skipped (int_max_str_digits e) (rederive_spans (doc ! pn)) (fst it)"
    by (cases it) (auto simp: skipped_def out_of_range_def split: option.splits)
qed

text \<open>What is applied on a page that was read.\<close>

lemma apply_page_applied:
  assumes "fitz_open e path = Some doc" and "p < length doc"
    and "map_of edits (str_nat p) = Some (JObj pe)"
    and "pages_done (fst (apply_text_edits_to_pdf e path (JObj edits)))"
  shows "edits_applied (int_max_str_digits e) (rederive_spans (doc ! p)) p pe
           (on_page p (ops (snd (apply_text_edits_to_pdf e path (JObj edits)))))"
proof -
  from apply_done(1) [OF assms(1,4,2)]
  have "\<not> isl (page_edits_of e (JObj edits) doc p)" .
  from page_edits_of_obj_entry [OF assms(3) this]
  have "page_edits_of e (JObj edits) doc p = Inr (Some pe)" by simp
  from apply_done(2) [OF assms(1,4,2) this] show ?thesis .
qed

lemma apply_pages_exist:
  assumes "fitz_open e path = Some doc"
  shows "\<forall>x \<in> set (ops (snd (apply_text_edits_to_pdf e path edits))). op_page x < length doc"
proof
  fix x assume x: "x \<in> set (ops (snd (apply_text_edits_to_pdf e path edits)))"
  then have "on_page (op_page x) (ops (snd (apply_text_edits_to_pdf e path edits))) \<noteq> []"
    by (auto simp: on_page_def filter_empty_conv)
  from apply_trace(2) [OF this] assms show "op_page x < length doc" by auto
qed

lemma out_of_range_invalid: "out_of_range m spans (fst it) \<Longrightarrow> valid_edit m spans it = None"
  by (cases it) (auto simp: out_of_range_def valid_edit_def split: option.splits)

lemma malformed_invalid: "\<not> parses_nonneg m (fst it) \<Longrightarrow> valid_edit m spans it = None"
  by (cases it) (auto simp: parses_nonneg_def valid_edit_def split: option.splits)

text \<open>
  C3 (amended). When the document opens, applying an edit set gives the same outcome
  (the bytes or the error) and the same calls on the document as applying it without the
  entries whose span index is negative or not below the page's number of spans and
  without the pages whose index is not in the document; and no call is made on a page
  that is not in the document. When the page loop ended without raising, the calls on
  each page of the document whose entry is a dict are those that apply the valid edits
  of that dict (\<open>edits_applied\<close>): one mark for each valid edit, in order, one commit,
  and the insertions for the edits that were marked; an edit whose index is out of range
  is not a valid edit. The commit is made for every such page, also when none of its
  edits is valid.
\<close>

theorem out_of_range_edits_skipped:
  assumes "fitz_open e path = Some doc"
  shows "fst (apply_text_edits_to_pdf e path (JObj edits)) =
     fst (apply_text_edits_to_pdf e path (JObj (drop_out_of_range (int_max_str_digits e) doc edits))) \<and>
   ops (snd (apply_text_edits_to_pdf e path (JObj edits))) =
     ops (snd (apply_text_edits_to_pdf e path
       (JObj (drop_out_of_range (int_max_str_digits e) doc edits)))) \<and>
   (\<forall>x \<in> set (ops (snd (apply_text_edits_to_pdf e path (JObj edits)))). op_page x < length doc) \<and>
   (\<forall>p pe. p < length doc \<and> map_of edits (str_nat p) = Some (JObj pe) \<and>
       pages_done (fst (apply_text_edits_to_pdf e path (JObj edits))) \<longrightarrow>
       edits_applied (int_max_str_digits e) (rederive_spans (doc ! p)) p pe
         (on_page p (ops (snd (apply_text_edits_to_pdf e path (JObj edits))))) \<and>
       (\<forall>it \<in> set pe. out_of_range (int_max_str_digits e) (rederive_spans (doc ! p)) (fst it) \<longrightarrow>
          valid_edit (int_max_str_digits e) (rederive_spans (doc ! p)) it = None))"
  using drop_out_of_range_same [OF assms, of edits] apply_pages_exist [OF assms, of "JObj edits"]
    apply_page_applied [OF assms, where edits = edits] out_of_range_invalid
  by blast

text \<open>
  C4 (amended). Applying an edit set gives the same outcome (the bytes or the error) and
  the same calls on the document as applying it without its malformed entries: without
  the page keys that do not parse as a non-negative integer and without the span keys
  that \<^verbatim>\<open>int\<close> refuses or reads as negative. When the document opens and the page
  loop ended without raising, the calls on each page \<open>p\<close> of the document whose entry
  under the key \<open>str_nat p\<close> is a dict are those that apply the valid edits of that dict
  (\<open>edits_applied\<close>), and an edit whose key does not parse as a non-negative integer is
  not a valid edit. Only the entries under the keys \<open>str_nat p\<close> are processed.
\<close>

theorem malformed_keys_dropped:
  "fst (apply_text_edits_to_pdf e path (JObj edits)) =
     fst (apply_text_edits_to_pdf e path (JObj (drop_malformed (int_max_str_digits e) edits))) \<and>
   ops (snd (apply_text_edits_to_pdf e path (JObj edits))) =
     ops (snd (apply_text_edits_to_pdf e path (JObj (drop_malformed (int_max_str_digits e) edits)))) \<and>
   (\<forall>doc p pe. fitz_open e path = Some doc \<and> p < length doc \<and>
       map_of edits (str_nat p) = Some (JObj pe) \<and>
       pages_done (fst (apply_text_edits_to_pdf e path (JObj edits))) \<longrightarrow>
       edits_applied (int_max_str_digits e) (rederive_spans (doc ! p)) p pe
         (on_page p (ops (snd (apply_text_edits_to_pdf e path (JObj edits))))) \<and>
       (\<forall>it \<in> set pe. \<not> parses_nonneg (int_max_str_digits e) (fst it) \<longrightarrow>
          valid_edit (int_max_str_digits e) (rederive_spans (doc ! p)) it = None))"
  using drop_malformed_same [of e path edits]
    apply_page_applied [where e = e and path = path and edits = edits] malformed_invalid
  by blast

subsection \<open>The plan of a page\<close>

lemma plan_entry_valid_marked:
  assumes "valid_edit (int_max_str_digits e) spans it = Some v"
    and "add_redact_annot e (ops st) pn (fst (snd v)) (1, 1, 1)"
  shows "snd (plan_entry e pn spans (st, anns) it) = anns @ [planned spans v]"
  using assms
  by (cases it)
     (auto simp: valid_edit_def plan_entry_def planned_def get_or_def
           split: option.splits if_splits)

lemma plan_fold_all_marked:
  assumes "\<forall>h b. add_redact_annot e h pn b (1, 1, 1)"
  shows "snd (foldl (plan_entry e pn spans) (st, anns) pe) =
     anns @ map (planned spans) (List.map_filter (valid_edit (int_max_str_digits e) spans) pe)"
proof (induction pe arbitrary: st anns)
  case Nil
  show ?case by (simp add: map_filter_simps)
next
  case (Cons it pe)
  obtain st1 anns1 where r: "plan_entry e pn spans (st, anns) it = (st1, anns1)"
    by (cases "plan_entry e pn spans (st, anns) it")
  show ?case
  proof (cases "valid_edit (int_max_str_digits e) spans it")
    case None
    from plan_entry_invalid(2) [OF None, of pn st anns] r have "anns1 = anns" by simp
    with Cons.IH [of st1 anns1] r None show ?thesis by (simp add: map_filter_simps)
  next
    case (Some v)
    from assms have "add_redact_annot e (ops st) pn (fst (snd v)) (1, 1, 1)" by simp
    from plan_entry_valid_marked [OF Some this, of anns] r
    have "anns1 = anns @ [planned spans v]" by simp
    with Cons.IH [of st1 anns1] r Some show ?thesis by (simp add: map_filter_simps)
  qed
qed

lemma valid_edit_iff:
  "valid_edit m spans (k, t) = Some v \<longleftrightarrow>
     (\<exists>i b. v = (i, b, t) \<and> py_int m k = Some (int i) \<and> i < length spans \<and>
        s_bbox (spans ! i) = Some b \<and> b \<noteq> [])"
proof
  assume "valid_edit m spans (k, t) = Some v"
  then obtain w b where "py_int m k = Some w" "\<not> (w < 0 \<or> int (length spans) \<le> w)"
    "s_bbox (spans ! nat w) = Some b" "b \<noteq> []" "v = (nat w, b, t)"
    by (auto simp: valid_edit_def split: option.splits if_splits)
  then show "\<exists>i b. v = (i, b, t) \<and> py_int m k = Some (int i) \<and> i < length spans \<and>
        s_bbox (spans ! i) = Some b \<and> b \<noteq> []"
    by (intro exI [of _ "nat w"] exI [of _ b]) auto
next
  assume "\<exists>i b. v = (i, b, t) \<and> py_int m k = Some (int i) \<and> i < length spans \<and>
        s_bbox (spans ! i) = Some b \<and> b \<noteq> []"
  then show "valid_edit m spans (k, t) = Some v"
    by (auto simp: valid_edit_def)
qed

lemma planned_eq:
  "planned spans =
     (\<lambda>(i, b, t).
        \<lparr>a_bbox = b,
         a_font = (case s_font (spans ! i) of None \<Rightarrow> ''helv'' | Some f \<Rightarrow> f),
         a_size = (case s_size (spans ! i) of None \<Rightarrow> 12 | Some z \<Rightarrow> z),
         a_color = (case s_color (spans ! i) of None \<Rightarrow> 0 | Some c \<Rightarrow> c),
         a_new_text = t\<rparr>)"
  by (rule ext) (simp add: planned_def)

text \<open>
  C2 (amended). The plan of a page is determined by the valid edits of the page's dict,
  in the order of the dict. One mark is attempted for each valid edit, on the box of its
  span and with a white fill, and these are the only calls of the planning loop. The plan
  holds one entry for each valid edit whose marking succeeded, in order, and therefore
  one entry for every valid edit when no marking fails. The entry of a valid edit on
  span \<open>i\<close> records the span's box, the span's font or \<^verbatim>\<open>"helv"\<close> when the span has
  no font key, the span's size or 12 when the span has no size key, the span's color or
  0 when it has none, and the replacement text. An edit is valid exactly when
  \<^verbatim>\<open>int\<close> reads its key as an index \<open>i\<close> below the number of spans and span \<open>i\<close> has
  a non-empty box.
\<close>

theorem plan_entry_fields:
  assumes "foldl (plan_entry e pn spans) (st, []) page_edits = (st', annotations)"
  shows "(\<exists>evs. ops st' = ops st @ evs \<and> length (mark_calls evs) = length evs \<and>
        map fst (mark_calls evs) =
          map (\<lambda>v. (pn, fst (snd v), (1, 1, 1)))
            (List.map_filter (valid_edit (int_max_str_digits e) spans) page_edits) \<and>
        annotations =
          map (\<lambda>(i, b, t).
                 \<lparr>a_bbox = b,
                  a_font = (case s_font (spans ! i) of None \<Rightarrow> ''helv'' | Some f \<Rightarrow> f),
                  a_size = (case s_size (spans ! i) of None \<Rightarrow> 12 | Some z \<Rightarrow> z),
                  a_color = (case s_color (spans ! i) of None \<Rightarrow> 0 | Some c \<Rightarrow> c),
                  a_new_text = t\<rparr>)
            (marked_edits (List.map_filter (valid_edit (int_max_str_digits e) spans) page_edits)
               (mark_calls evs))) \<and>
     ((\<forall>h b. add_redact_annot e h pn b (1, 1, 1)) \<longrightarrow>
        annotations =
          map (\<lambda>(i, b, t).
                 \<lparr>a_bbox = b,
                  a_font = (case s_font (spans ! i) of None \<Rightarrow> ''helv'' | Some f \<Rightarrow> f),
                  a_size = (case s_size (spans ! i) of None \<Rightarrow> 12 | Some z \<Rightarrow> z),
                  a_color = (case s_color (spans ! i) of None \<Rightarrow> 0 | Some c \<Rightarrow> c),
                  a_new_text = t\<rparr>)
            (List.map_filter (valid_edit (int_max_str_digits e) spans) page_edits)) \<and>
     (\<forall>k t v. valid_edit (int_max_str_digits e) spans (k, t) = Some v \<longleftrightarrow>
        (\<exists>i b. v = (i, b, t) \<and> py_int (int_max_str_digits e) k = Some (int i) \<and>
           i < length spans \<and> s_bbox (spans ! i) = Some b \<and> b \<noteq> []))"
proof -
  from plan_fold_exact [of e pn spans st "[]" page_edits] assms
  have 1: "\<exists>evs. ops st' = ops st @ evs \<and> length (mark_calls evs) = length evs \<and>
        map fst (mark_calls evs) =
          map (\<lambda>v. (pn, fst (snd v), (1, 1, 1)))
            (List.map_filter (valid_edit (int_max_str_digits e) spans) page_edits) \<and>
        annotations = map (planned spans)
            (marked_edits (List.map_filter (valid_edit (int_max_str_digits e) spans) page_edits)
               (mark_calls evs))"
    by auto
  have 2: "annotations = map (planned spans)
        (List.map_filter (valid_edit (int_max_str_digits e) spans) page_edits)"
    if "\<forall>h b. add_redact_annot e h pn b (1, 1, 1)"
    using plan_fold_all_marked [OF that, of spans st "[]" page_edits] assms by simp
  from 1 2 valid_edit_iff [of "int_max_str_digits e" spans] show ?thesis
    unfolding planned_eq by blast
qed

theorem plan_entry_fields_witness:
  "foldl (plan_entry (sample_lib True True) 0 [hello_span, bare_span])
      (\<lparr>ops = [], logs = []\<rparr>, [])
      [(''0'', JStr ''Bonjour''), (''9'', JStr ''z''), (''1'', JStr ''new'')] =
     (\<lparr>ops = [AddRedactAnnot 0 [10, 10, 50, 20] (1, 1, 1) True,
              AddRedactAnnot 0 [60, 10, 70, 20] (1, 1, 1) True],
       logs = [SpanIndexOutOfRange 9 0]\<rparr>,
      [\<lparr>a_bbox = [10, 10, 50, 20], a_font = ''Helvetica'', a_size = 12, a_color = 0,
        a_new_text = JStr ''Bonjour''\<rparr>,
       \<lparr>a_bbox = [60, 10, 70, 20], a_font = [], a_size = 0, a_color = 255,
        a_new_text = JStr ''new''\<rparr>]) \<and>
   add_redact_annot (sample_lib True True) [] 0 [10, 10, 50, 20] (1, 1, 1) \<and>
   List.map_filter (valid_edit 4300 [hello_span, bare_span])
      [(''0'', JStr ''Bonjour''), (''9'', JStr ''z''), (''1'', JStr ''new'')] =
     [(0, [10, 10, 50, 20], JStr ''Bonjour''), (1, [60, 10, 70, 20], JStr ''new'')] \<and>
   [\<lparr>a_bbox = [10, 10, 50, 20], a_font = ''Helvetica'', a_size = 12, a_color = 0,
     a_new_text = JStr ''Bonjour''\<rparr>,
    \<lparr>a_bbox = [60, 10, 70, 20], a_font = [], a_size = 0, a_color = 255,
     a_new_text = JStr ''new''\<rparr>] =
   map (\<lambda>(i, b, t).
          \<lparr>a_bbox = b,
           a_font = (case s_font ([hello_span, bare_span] ! i) of None \<Rightarrow> ''helv'' | Some f \<Rightarrow> f),
           a_size = (case s_size ([hello_span, bare_span] ! i) of None \<Rightarrow> 12 | Some z \<Rightarrow> z),
           a_color = (case s_color ([hello_span, bare_span] ! i) of None \<Rightarrow> 0 | Some c \<Rightarrow> c),
           a_new_text = t\<rparr>)
     [(0, [10, 10, 50, 20], JStr ''Bonjour''), (1, [60, 10, 70, 20], JStr ''new'')]"
proof -
  have h: "foldl (plan_entry (sample_lib True True) 0 [hello_span, bare_span])
      (\<lparr>ops = [], logs = []\<rparr>, [])
      [(''0'', JStr ''Bonjour''), (''9'', JStr ''z''), (''1'', JStr ''new'')] =
     (\<lparr>ops = [AddRedactAnnot 0 [10, 10, 50, 20] (1, 1, 1) True,
              AddRedactAnnot 0 [60, 10, 70, 20] (1, 1, 1) True],
       logs = [SpanIndexOutOfRange 9 0]\<rparr>,
      [\<lparr>a_bbox = [10, 10, 50, 20], a_font = ''Helvetica'', a_size = 12, a_color = 0,
        a_new_text = JStr ''Bonjour''\<rparr>,
       \<lparr>a_bbox = [60, 10, 70, 20], a_font = [], a_size = 0, a_color = 255,
        a_new_text = JStr ''new''\<rparr>])"
    by code_simp
  have a: "\<forall>h b. add_redact_annot (sample_lib True True) h 0 b (1, 1, 1)"
    by (simp add: sample_lib_def)
  have m: "int_max_str_digits (sample_lib True True) = 4300"
    by (simp add: sample_lib_def)
  have v: "List.map_filter (valid_edit 4300 [hello_span, bare_span])
      [(''0'', JStr ''Bonjour''), (''9'', JStr ''z''), (''1'', JStr ''new'')] =
     [(0, [10, 10, 50, 20], JStr ''Bonjour''), (1, [60, 10, 70, 20], JStr ''new'')]"
    by code_simp
  note inst = plan_entry_fields [OF h, unfolded m v]
  from inst a have "[\<lparr>a_bbox = [10, 10, 50, 20], a_font = ''Helvetica'', a_size = 12, a_color = 0,
     a_new_text = JStr ''Bonjour''\<rparr>,
    \<lparr>a_bbox = [60, 10, 70, 20], a_font = [], a_size = 0, a_color = 255,
     a_new_text = JStr ''new''\<rparr>] =
   map (\<lambda>(i, b, t).
          \<lparr>a_bbox = b,
           a_font = (case s_font ([hello_span, bare_span] ! i) of None \<Rightarrow> ''helv'' | Some f \<Rightarrow> f),
           a_size = (case s_size ([hello_span, bare_span] ! i) of None \<Rightarrow> 12 | Some z \<Rightarrow> z),
           a_color = (case s_color ([hello_span, bare_span] ! i) of None \<Rightarrow> 0 | Some c \<Rightarrow> c),
           a_new_text = t\<rparr>)
     [(0, [10, 10, 50, 20], JStr ''Bonjour''), (1, [60, 10, 70, 20], JStr ''new'')]"
    by blast
  with h a v show ?thesis by blast
qed

text \<open>
  A span whose font is the empty string and whose size is zero: the edit on it is
  valid, its plan entry records the empty font and the size zero, not \<^verbatim>\<open>"helv"\<close>
  and 12, and \<^verbatim>\<open>insert_text\<close> is called with them.
\<close>

theorem empty_font_zero_size_recorded:
  "s_font bare_span = Some [] \<and> s_size bare_span = Some 0 \<and>
   valid_edit 4300 [hello_span, bare_span] (''1'', JStr ''new'') =
     Some (1, [60, 10, 70, 20], JStr ''new'') \<and>
   snd (foldl (plan_entry (sample_lib True True) 0 [hello_span, bare_span])
      (\<lparr>ops = [], logs = []\<rparr>, []) [(''1'', JStr ''new'')]) =
     [\<lparr>a_bbox = [60, 10, 70, 20], a_font = [], a_size = 0, a_color = 255,
       a_new_text = JStr ''new''\<rparr>] \<and>
   insert_calls (ops (snd (apply_text_edits_to_pdf (sample_lib True True) ''in.pdf''
      (JObj [(''0'', JObj [(''1'', JStr ''new'')])])))) =
     [(0, (60, 19), JStr ''new'', [], 0, (0, 0, 0))]"
  by code_simp

text \<open>
  An edit set whose only edit is out of range (index 7 on a page of two spans): the
  edit is skipped and logged, but the page still receives its commit call, and what is
  saved is the document after that call, where the empty edit set saves the document
  with no call made.
\<close>

theorem out_of_range_edit_still_commits:
  "fitz_open (sample_lib True True) ''in.pdf'' = Some hello_doc \<and>
   length (rederive_spans (hello_doc ! 0)) = 2 \<and>
   out_of_range 4300 (rederive_spans (hello_doc ! 0)) ''7'' \<and>
   apply_text_edits_to_pdf (sample_lib True True) ''in.pdf''
      (JObj [(''0'', JObj [(''7'', JStr ''z'')])]) =
     (Inr ''edited'', \<lparr>ops = [ApplyRedactions 0 True], logs = [SpanIndexOutOfRange 7 0]\<rparr>) \<and>
   apply_text_edits_to_pdf (sample_lib True True) ''in.pdf'' (JObj []) =
     (Inr ''unchanged'', \<lparr>ops = [], logs = []\<rparr>)"
  by code_simp

text \<open>
  The page key \<^verbatim>\<open>"+0"\<close> parses as the non-negative integer 0 and its entry holds a
  valid edit of page 0, yet no call is made and nothing is logged: the entry is not
  processed, where the same entry under the key \<^verbatim>\<open>"0"\<close> is.
\<close>

theorem signed_page_key_not_processed:
  "py_int 4300 ''+0'' = Some 0 \<and> parses_nonneg 4300 ''+0'' \<and>
   valid_edit 4300 (rederive_spans (hello_doc ! 0)) (''0'', JStr ''Bonjour'') =
     Some (0, [10, 10, 50, 20], JStr ''Bonjour'') \<and>
   apply_text_edits_to_pdf (sample_lib True True) ''in.pdf''
      (JObj [(''+0'', JObj [(''0'', JStr ''Bonjour'')])]) =
     (Inr ''unchanged'', \<lparr>ops = [], logs = []\<rparr>) \<and>
   ops (snd (apply_text_edits_to_pdf (sample_lib True True) ''in.pdf''
      (JObj [(''0'', JObj [(''0'', JStr ''Bonjour'')])]))) =
     [AddRedactAnnot 0 [10, 10, 50, 20] (1, 1, 1) True, ApplyRedactions 0 True,
      InsertText 0 (10, 19) (JStr ''Bonjour'') ''Helvetica'' 12 (0, 0, 0) True]"
  by code_simp

subsection \<open>The properties on the sample document\<close>

theorem out_of_range_edits_skipped_witness:
  "fitz_open (sample_lib True True) ''in.pdf'' = Some hello_doc \<and>
   drop_out_of_range 4300 hello_doc
     [(''0'', JObj [(''7'', JStr ''z''), (''0'', JStr ''Bonjour'')]),
      (''5'', JObj [(''0'', JStr ''q'')])] =
     [(''0'', JObj [(''0'', JStr ''Bonjour'')])] \<and>
   fst (apply_text_edits_to_pdf (sample_lib True True) ''in.pdf''
     (JObj [(''0'', JObj [(''7'', JStr ''z''), (''0'', JStr ''Bonjour'')]),
            (''5'', JObj [(''0'', JStr ''q'')])])) =
   fst (apply_text_edits_to_pdf (sample_lib True True) ''in.pdf''
     (JObj [(''0'', JObj [(''0'', JStr ''Bonjour'')])])) \<and>
   ops (snd (apply_text_edits_to_pdf (sample_lib True True) ''in.pdf''
     (JObj [(''0'', JObj [(''7'', JStr ''z''), (''0'', JStr ''Bonjour'')]),
            (''5'', JObj [(''0'', JStr ''q'')])]))) =
   ops (snd (apply_text_edits_to_pdf (sample_lib True True) ''in.pdf''
     (JObj [(''0'', JObj [(''0'', JStr ''Bonjour'')])]))) \<and>
   pages_done (fst (apply_text_edits_to_pdf (sample_lib True True) ''in.pdf''
     (JObj [(''0'', JObj [(''7'', JStr ''z''), (''0'', JStr ''Bonjour'')]),
            (''5'', JObj [(''0'', JStr ''q'')])]))) \<and>
   edits_applied 4300 (rederive_spans (hello_doc ! 0)) 0
     [(''7'', JStr ''z''), (''0'', JStr ''Bonjour'')]
     (on_page 0 (ops (snd (apply_text_edits_to_pdf (sample_lib True True) ''in.pdf''
        (JObj [(''0'', JObj [(''7'', JStr ''z''), (''0'', JStr ''Bonjour'')]),
               (''5'', JObj [(''0'', JStr ''q'')])]))))) \<and>
   out_of_range 4300 (rederive_spans (hello_doc ! 0)) ''7'' \<and>
   valid_edit 4300 (rederive_spans (hello_doc ! 0)) (''7'', JStr ''z'') = None \<and>
   ops (snd (apply_text_edits_to_pdf (sample_lib True True) ''in.pdf''
     (JObj [(''0'', JObj [(''0'', JStr ''Bonjour'')])]))) =
     [AddRedactAnnot 0 [10, 10, 50, 20] (1, 1, 1) True, ApplyRedactions 0 True,
      InsertText 0 (10, 19) (JStr ''Bonjour'') ''Helvetica'' 12 (0, 0, 0) True]"
proof -
  let ?ed = "[(''0'', JObj [(''7'', JStr ''z''), (''0'', JStr ''Bonjour'')]),
      (''5'', JObj [(''0'', JStr ''q'')])]"
  let ?pe = "[(''7'', JStr ''z''), (''0'', JStr ''Bonjour'')]"
  have o: "fitz_open (sample_lib True True) ''in.pdf'' = Some hello_doc"
    by (simp add: sample_lib_def)
  have m: "int_max_str_digits (sample_lib True True) = 4300"
    by (simp add: sample_lib_def)
  have d: "drop_out_of_range 4300 hello_doc ?ed = [(''0'', JObj [(''0'', JStr ''Bonjour'')])]"
    by code_simp
  have l: "0 < length hello_doc" by (simp add: hello_doc_def)
  have k: "map_of ?ed (str_nat 0) = Some (JObj ?pe)" by code_simp
  have pd: "pages_done (fst (apply_text_edits_to_pdf (sample_lib True True) ''in.pdf'' (JObj ?ed)))"
    by code_simp
  have r: "out_of_range 4300 (rederive_spans (hello_doc ! 0)) (fst (''7'', JStr ''z''))"
    by code_simp
  have t: "ops (snd (apply_text_edits_to_pdf (sample_lib True True) ''in.pdf''
     (JObj [(''0'', JObj [(''0'', JStr ''Bonjour'')])]))) =
     [AddRedactAnnot 0 [10, 10, 50, 20] (1, 1, 1) True, ApplyRedactions 0 True,
      InsertText 0 (10, 19) (JStr ''Bonjour'') ''Helvetica'' 12 (0, 0, 0) True]"
    by code_simp
  note inst = out_of_range_edits_skipped [OF o, of ?ed, unfolded m d]
  from inst have
    a: "fst (apply_text_edits_to_pdf (sample_lib True True) ''in.pdf'' (JObj ?ed)) =
        fst (apply_text_edits_to_pdf (sample_lib True True) ''in.pdf''
          (JObj [(''0'', JObj [(''0'', JStr ''Bonjour'')])]))"
    and b: "ops (snd (apply_text_edits_to_pdf (sample_lib True True) ''in.pdf'' (JObj ?ed))) =
        ops (snd (apply_text_edits_to_pdf (sample_lib True True) ''in.pdf''
          (JObj [(''0'', JObj [(''0'', JStr ''Bonjour'')])])))"
    by blast+
  from inst l k pd have
    c: "edits_applied 4300 (rederive_spans (hello_doc ! 0)) 0 ?pe
         (on_page 0 (ops (snd (apply_text_edits_to_pdf (sample_lib True True) ''in.pdf''
            (JObj ?ed)))))"
    and q: "\<forall>it \<in> set ?pe. out_of_range 4300 (rederive_spans (hello_doc ! 0)) (fst it) \<longrightarrow>
          valid_edit 4300 (rederive_spans (hello_doc ! 0)) it = None"
    by blast+
  from q r have v: "valid_edit 4300 (rederive_spans (hello_doc ! 0)) (''7'', JStr ''z'') = None"
    by simp
  from r have r': "out_of_range 4300 (rederive_spans (hello_doc ! 0)) ''7''" by simp
  from o d a b pd c r' v t show ?thesis by blast
qed

theorem malformed_keys_dropped_witness:
  "drop_malformed 4300
     [(''0'', JObj [(''x'', JStr ''z''), (''-1'', JStr ''y''), (''0'', JStr ''Bonjour'')]),
      (''p'', JObj [(''0'', JStr ''q'')])] =
     [(''0'', JObj [(''0'', JStr ''Bonjour'')])] \<and>
   fst (apply_text_edits_to_pdf (sample_lib True True) ''in.pdf''
     (JObj [(''0'', JObj [(''x'', JStr ''z''), (''-1'', JStr ''y''), (''0'', JStr ''Bonjour'')]),
            (''p'', JObj [(''0'', JStr ''q'')])])) =
   fst (apply_text_edits_to_pdf (sample_lib True True) ''in.pdf''
     (JObj [(''0'', JObj [(''0'', JStr ''Bonjour'')])])) \<and>
   ops (snd (apply_text_edits_to_pdf (sample_lib True True) ''in.pdf''
     (JObj [(''0'', JObj [(''x'', JStr ''z''), (''-1'', JStr ''y''), (''0'', JStr ''Bonjour'')]),
            (''p'', JObj [(''0'', JStr ''q'')])]))) =
   ops (snd (apply_text_edits_to_pdf (sample_lib True True) ''in.pdf''
     (JObj [(''0'', JObj [(''0'', JStr ''Bonjour'')])]))) \<and>
   fitz_open (sample_lib True True) ''in.pdf'' = Some hello_doc \<and>
   pages_done (fst (apply_text_edits_to_pdf (sample_lib True True) ''in.pdf''
     (JObj [(''0'', JObj [(''x'', JStr ''z''), (''-1'', JStr ''y''), (''0'', JStr ''Bonjour'')]),
            (''p'', JObj [(''0'', JStr ''q'')])]))) \<and>
   edits_applied 4300 (rederive_spans (hello_doc ! 0)) 0
     [(''x'', JStr ''z''), (''-1'', JStr ''y''), (''0'', JStr ''Bonjour'')]
     (on_page 0 (ops (snd (apply_text_edits_to_pdf (sample_lib True True) ''in.pdf''
        (JObj [(''0'', JObj [(''x'', JStr ''z''), (''-1'', JStr ''y''), (''0'', JStr ''Bonjour'')]),
               (''p'', JObj [(''0'', JStr ''q'')])]))))) \<and>
   \<not> parses_nonneg 4300 ''x'' \<and>
   valid_edit 4300 (rederive_spans (hello_doc ! 0)) (''x'', JStr ''z'') = None \<and>
   \<not> parses_nonneg 4300 ''-1'' \<and>
   valid_edit 4300 (rederive_spans (hello_doc ! 0)) (''-1'', JStr ''y'') = None \<and>
   ops (snd (apply_text_edits_to_pdf (sample_lib True True) ''in.pdf''
     (JObj [(''0'', JObj [(''0'', JStr ''Bonjour'')])]))) =
     [AddRedactAnnot 0 [10, 10, 50, 20] (1, 1, 1) True, ApplyRedactions 0 True,
      InsertText 0 (10, 19) (JStr ''Bonjour'') ''Helvetica'' 12 (0, 0, 0) True]"
proof -
  let ?ed = "[(''0'', JObj [(''x'', JStr ''z''), (''-1'', JStr ''y''), (''0'', JStr ''Bonjour'')]),
      (''p'', JObj [(''0'', JStr ''q'')])]"
  let ?pe = "[(''x'', JStr ''z''), (''-1'', JStr ''y''), (''0'', JStr ''Bonjour'')]"
  have o: "fitz_open (sample_lib True True) ''in.pdf'' = Some hello_doc"
    by (simp add: sample_lib_def)
  have m: "int_max_str_digits (sample_lib True True) = 4300"
    by (simp add: sample_lib_def)
  have d: "drop_malformed 4300 ?ed = [(''0'', JObj [(''0'', JStr ''Bonjour'')])]"
    by code_simp
  have l: "0 < length hello_doc" by (simp add: hello_doc_def)
  have k: "map_of ?ed (str_nat 0) = Some (JObj ?pe)" by code_simp
  have pd: "pages_done (fst (apply_text_edits_to_pdf (sample_lib True True) ''in.pdf'' (JObj ?ed)))"
    by code_simp
  have r1: "\<not> parses_nonneg 4300 (fst (''x'', JStr ''z''))" by code_simp
  have r2: "\<not> parses_nonneg 4300 (fst (''-1'', JStr ''y''))" by code_simp
  have t: "ops (snd (apply_text_edits_to_pdf (sample_lib True True) ''in.pdf''
     (JObj [(''0'', JObj [(''0'', JStr ''Bonjour'')])]))) =
     [AddRedactAnnot 0 [10, 10, 50, 20] (1, 1, 1) True, ApplyRedactions 0 True,
      InsertText 0 (10, 19) (JStr ''Bonjour'') ''Helvetica'' 12 (0, 0, 0) True]"
    by code_simp
  note inst = malformed_keys_dropped [of "sample_lib True True" "''in.pdf''" ?ed, unfolded m d]
  from inst have
    a: "fst (apply_text_edits_to_pdf (sample_lib True True) ''in.pdf'' (JObj ?ed)) =
        fst (apply_text_edits_to_pdf (sample_lib True True) ''in.pdf''
          (JObj [(''0'', JObj [(''0'', JStr ''Bonjour'')])]))"
    and b: "ops (snd (apply_text_edits_to_pdf (sample_lib True True) ''in.pdf'' (JObj ?ed))) =
        ops (snd (apply_text_edits_to_pdf (sample_lib True True) ''in.pdf''
          (JObj [(''0'', JObj [(''0'', JStr ''Bonjour'')])])))"
    by blast+
  from inst o l k pd have
    c: "edits_applied 4300 (rederive_spans (hello_doc ! 0)) 0 ?pe
         (on_page 0 (ops (snd (apply_text_edits_to_pdf (sample_lib True True) ''in.pdf''
            (JObj ?ed)))))"
    and q: "\<forall>it \<in> set ?pe. \<not> parses_nonneg 4300 (fst it) \<longrightarrow>
          valid_edit 4300 (rederive_spans (hello_doc ! 0)) it = None"
    by blast+
  from q r1 have v1: "valid_edit 4300 (rederive_spans (hello_doc ! 0)) (''x'', JStr ''z'') = None"
    by simp
  from q r2 have v2: "valid_edit 4300 (rederive_spans (hello_doc ! 0)) (''-1'', JStr ''y'') = None"
    by simp
  from r1 r2 have r: "\<not> parses_nonneg 4300 ''x''" "\<not> parses_nonneg 4300 ''-1''" by simp_all
  from o d a b pd c r v1 v2 t show ?thesis by blast
qed

theorem insert_needs_mark_and_commit_witness:
  "commits (on_page 1 (ops (snd (apply_text_edits_to_pdf (sample_lib True False) ''in.pdf''
      (JObj [(''0'', JObj [(''0'', JStr ''Bonjour'')]), (''1'', JObj [(''1'', JStr ''new'')])]))))) =
     [True] \<and>
   map (fst \<circ> snd) (insert_calls (on_page 1 (ops (snd (apply_text_edits_to_pdf
      (sample_lib True False) ''in.pdf''
      (JObj [(''0'', JObj [(''0'', JStr ''Bonjour'')]), (''1'', JObj [(''1'', JStr ''new'')])])))))) =
   map (\<lambda>b. (b ! 0, b ! 3 - 1)) (filter (\<lambda>b. 4 \<le> length b)
     (marked_boxes (on_page 1 (ops (snd (apply_text_edits_to_pdf (sample_lib True False) ''in.pdf''
      (JObj [(''0'', JObj [(''0'', JStr ''Bonjour'')]), (''1'', JObj [(''1'', JStr ''new'')])]))))))) \<and>
   commits (on_page 0 (ops (snd (apply_text_edits_to_pdf (sample_lib True False) ''in.pdf''
      (JObj [(''0'', JObj [(''0'', JStr ''Bonjour'')]), (''1'', JObj [(''1'', JStr ''new'')])]))))) =
     [False] \<and>
   insert_calls (on_page 0 (ops (snd (apply_text_edits_to_pdf (sample_lib True False) ''in.pdf''
      (JObj [(''0'', JObj [(''0'', JStr ''Bonjour'')]), (''1'', JObj [(''1'', JStr ''new'')])]))))) =
     [] \<and>
   fitz_open (sample_lib True False) ''in.pdf'' = Some hello_doc \<and>
   pages_done (fst (apply_text_edits_to_pdf (sample_lib True False) ''in.pdf''
      (JObj [(''0'', JObj [(''0'', JStr ''Bonjour'')]), (''1'', JObj [(''1'', JStr ''new'')])]))) \<and>
   1 < length hello_doc \<and>
   map_of [(''0'', JObj [(''0'', JStr ''Bonjour'')]), (''1'', JObj [(''1'', JStr ''new'')])]
     (str_nat 1) \<noteq> None \<and>
   ops (snd (apply_text_edits_to_pdf (sample_lib False True) ''in.pdf''
      (JObj [(''0'', JObj [(''0'', JStr ''Bonjour'')])]))) =
     [AddRedactAnnot 0 [10, 10, 50, 20] (1, 1, 1) False, ApplyRedactions 0 True] \<and>
   insert_calls (on_page 0 (ops (snd (apply_text_edits_to_pdf (sample_lib False True) ''in.pdf''
      (JObj [(''0'', JObj [(''0'', JStr ''Bonjour'')])]))))) = []"
proof -
  let ?g = "on_page 0 (ops (snd (apply_text_edits_to_pdf (sample_lib False True) ''in.pdf''
      (JObj [(''0'', JObj [(''0'', JStr ''Bonjour'')])]))))"
  have t: "ops (snd (apply_text_edits_to_pdf (sample_lib False True) ''in.pdf''
      (JObj [(''0'', JObj [(''0'', JStr ''Bonjour'')])]))) =
     [AddRedactAnnot 0 [10, 10, 50, 20] (1, 1, 1) False, ApplyRedactions 0 True]"
    by code_simp
  have g1: "commits ?g = [True]" by code_simp
  have g2: "marked_boxes ?g = []" by code_simp
  from insert_needs_mark_and_commit [of 0 "sample_lib False True" "''in.pdf''"
      "[(''0'', JObj [(''0'', JStr ''Bonjour'')])]"] g1 g2
  have g: "insert_calls ?g = []"
    by (simp add: Let_def)
  let ?ed = "[(''0'', JObj [(''0'', JStr ''Bonjour'')]), (''1'', JObj [(''1'', JStr ''new'')])]"
  let ?h = "\<lambda>p. on_page p (ops (snd (apply_text_edits_to_pdf (sample_lib True False) ''in.pdf''
      (JObj ?ed))))"
  have c0: "commits (?h 0) = [False]" by code_simp
  have o: "fitz_open (sample_lib True False) ''in.pdf'' = Some hello_doc"
    by (simp add: sample_lib_def)
  have pd: "pages_done (fst (apply_text_edits_to_pdf (sample_lib True False) ''in.pdf'' (JObj ?ed)))"
    by code_simp
  have l: "1 < length hello_doc" by (simp add: hello_doc_def)
  have k: "map_of ?ed (str_nat 1) \<noteq> None" by code_simp
  have s: "apply_redactions (sample_lib True False) [] 1" by (simp add: sample_lib_def)
  note i1 = insert_needs_mark_and_commit [of 1 "sample_lib True False" "''in.pdf''" ?ed,
      unfolded Let_def]
  from i1 o pd l k have n1: "commits (?h 1) \<noteq> []" by blast
  have c1: "commits (?h 1) = [True]" by code_simp
  from i1 c1
  have a: "map (fst \<circ> snd) (insert_calls (?h 1)) =
      map (\<lambda>b. (b ! 0, b ! 3 - 1)) (filter (\<lambda>b. 4 \<le> length b) (marked_boxes (?h 1)))"
    by blast
  from insert_needs_mark_and_commit [of 0 "sample_lib True False" "''in.pdf''" ?ed] c0
  have b: "insert_calls (?h 0) = []"
    by (simp add: Let_def)
  from a b c0 c1 o pd l k t g show ?thesis by blast
qed

theorem pages_without_edits_untouched_witness:
  "map_of [(''0'', JObj [(''0'', JStr ''Bonjour'')])] (str_nat 1) = None \<and>
   on_page 1 (ops (snd (apply_text_edits_to_pdf (sample_lib True True) ''in.pdf''
      (JObj [(''0'', JObj [(''0'', JStr ''Bonjour'')])])))) = [] \<and>
   ops (snd (apply_text_edits_to_pdf (sample_lib True True) ''in.pdf'' (JObj []))) = [] \<and>
   on_page 0 (ops (snd (apply_text_edits_to_pdf (sample_lib True True) ''in.pdf''
      (JObj [(''0'', JObj [(''0'', JStr ''Bonjour'')])])))) =
     [AddRedactAnnot 0 [10, 10, 50, 20] (1, 1, 1) True, ApplyRedactions 0 True,
      InsertText 0 (10, 19) (JStr ''Bonjour'') ''Helvetica'' 12 (0, 0, 0) True]"
proof -
  have n: "map_of [(''0'', JObj [(''0'', JStr ''Bonjour'')])] (str_nat 1) = None" by code_simp
  have t: "on_page 0 (ops (snd (apply_text_edits_to_pdf (sample_lib True True) ''in.pdf''
      (JObj [(''0'', JObj [(''0'', JStr ''Bonjour'')])])))) =
     [AddRedactAnnot 0 [10, 10, 50, 20] (1, 1, 1) True, ApplyRedactions 0 True,
      InsertText 0 (10, 19) (JStr ''Bonjour'') ''Helvetica'' 12 (0, 0, 0) True]"
    by code_simp
  from pages_without_edits_untouched [of "[(''0'', JObj [(''0'', JStr ''Bonjour'')])]" 1
      "sample_lib True True" "''in.pdf''"] n t
  show ?thesis by blast
qed

theorem raises_only_on_open_or_save_witness:
  "fitz_open (sample_lib True True) ''gone.pdf'' = None \<and>
   isl (fst (extract_text_from_pdf (sample_lib True True) ''gone.pdf'')) \<and>
   isl (fst (apply_text_edits_to_pdf (sample_lib True True) ''gone.pdf'' (JObj []))) \<and>
   fitz_open locked_lib ''in.pdf'' = Some hello_doc \<and> \<not> len_doc locked_lib hello_doc \<and>
   isl (fst (extract_text_from_pdf locked_lib ''in.pdf'')) \<and>
   isl (fst (apply_text_edits_to_pdf locked_lib ''in.pdf'' (JObj []))) \<and>
   fitz_open (sample_lib True True) ''in.pdf'' = Some hello_doc \<and>
   0 < length hello_doc \<and>
   py_contains (JObj [(''0'', JArr [JStr ''Bonjour''])]) (str_nat 0) = Some True \<and>
   py_getitem (JObj [(''0'', JArr [JStr ''Bonjour''])]) (str_nat 0) = Some (JArr [JStr ''Bonjour'']) \<and>
   isl (fst (apply_text_edits_to_pdf (sample_lib True True) ''in.pdf''
          (JObj [(''0'', JArr [JStr ''Bonjour''])]))) \<and>
   fst (extract_text_from_pdf (sample_lib True True) ''in.pdf'') =
     Inr \<lparr>pages = [extract_page hello_page, extract_page hello_page]\<rparr> \<and>
   fst (apply_text_edits_to_pdf (sample_lib False False) ''in.pdf''
          (JObj [(''0'', JObj [(''0'', JStr ''Bonjour'')])])) = Inr ''edited''"
proof -
  have g: "fitz_open (sample_lib True True) ''gone.pdf'' = None"
    by (simp add: sample_lib_def)
  from raises_only_on_open_or_save [of "sample_lib True True" "''gone.pdf''" "JObj []"] g
  have a: "isl (fst (extract_text_from_pdf (sample_lib True True) ''gone.pdf''))"
    "isl (fst (apply_text_edits_to_pdf (sample_lib True True) ''gone.pdf'' (JObj [])))"
    by blast+
  have o: "fitz_open locked_lib ''in.pdf'' = Some hello_doc"
    by (simp add: locked_lib_def sample_lib_def)
  have n: "\<not> len_doc locked_lib hello_doc" by (simp add: locked_lib_def)
  from raises_only_on_open_or_save [of locked_lib "''in.pdf''" "JObj []"] o n
  have b: "isl (fst (extract_text_from_pdf locked_lib ''in.pdf''))"
    "isl (fst (apply_text_edits_to_pdf locked_lib ''in.pdf'' (JObj [])))"
    by blast+
  have o': "fitz_open (sample_lib True True) ''in.pdf'' = Some hello_doc"
    by (simp add: sample_lib_def)
  have l: "0 < length hello_doc" by (simp add: hello_doc_def)
  have c: "py_contains (JObj [(''0'', JArr [JStr ''Bonjour''])]) (str_nat 0) = Some True"
    by code_simp
  have i: "py_getitem (JObj [(''0'', JArr [JStr ''Bonjour''])]) (str_nat 0) =
      Some (JArr [JStr ''Bonjour''])"
    by code_simp
  from i have i': "\<forall>pe. py_getitem (JObj [(''0'', JArr [JStr ''Bonjour''])]) (str_nat 0) \<noteq>
      Some (JObj pe)"
    by simp
  from raises_only_on_open_or_save [of "sample_lib True True" "''in.pdf''"
      "JObj [(''0'', JArr [JStr ''Bonjour''])]"] o' l c i'
  have d: "isl (fst (apply_text_edits_to_pdf (sample_lib True True) ''in.pdf''
          (JObj [(''0'', JArr [JStr ''Bonjour''])])))"
    by blast
  have x: "fst (extract_text_from_pdf (sample_lib True True) ''in.pdf'') =
     Inr \<lparr>pages = [extract_page hello_page, extract_page hello_page]\<rparr>"
    by code_simp
  have y: "fst (apply_text_edits_to_pdf (sample_lib False False) ''in.pdf''
          (JObj [(''0'', JObj [(''0'', JStr ''Bonjour'')])])) = Inr ''edited''"
    by code_simp
  from g a o n b o' l c i d x y show ?thesis by blast
qed

theorem replacement_drawn_at_anchor_in_black_witness:
  "load_page (sample_lib True True) hello_doc 0 \<and> get_text (sample_lib True True) hello_doc 0 \<and>
   map_of [(''0'', JObj [(''0'', JStr ''Bonjour'')])] (str_nat 0) =
     Some (JObj [(''0'', JStr ''Bonjour'')]) \<and>
   foldl (plan_entry (sample_lib True True) 0 (rederive_spans (hello_doc ! 0)))
      (\<lparr>ops = [], logs = []\<rparr>, []) [(''0'', JStr ''Bonjour'')] =
     (\<lparr>ops = [AddRedactAnnot 0 [10, 10, 50, 20] (1, 1, 1) True], logs = []\<rparr>,
      [\<lparr>a_bbox = [10, 10, 50, 20], a_font = ''Helvetica'', a_size = 12, a_color = 0,
        a_new_text = JStr ''Bonjour''\<rparr>]) \<and>
   apply_redactions (sample_lib True True) [AddRedactAnnot 0 [10, 10, 50, 20] (1, 1, 1) True] 0 \<and>
   (\<exists>evs. ops (snd (process_page (sample_lib True True)
               (JObj [(''0'', JObj [(''0'', JStr ''Bonjour'')])]) hello_doc
               \<lparr>ops = [], logs = []\<rparr> 0)) =
           [AddRedactAnnot 0 [10, 10, 50, 20] (1, 1, 1) True] @ ApplyRedactions 0 True # evs \<and>
         length (insert_calls evs) = length evs \<and>
         insert_calls evs = [(0, (10, 19), JStr ''Bonjour'', ''Helvetica'', 12, (0, 0, 0))])"
proof -
  have lp: "load_page (sample_lib True True) hello_doc 0"
    and gt: "get_text (sample_lib True True) hello_doc 0"
    by (simp_all add: sample_lib_def)
  have k: "map_of [(''0'', JObj [(''0'', JStr ''Bonjour'')])] (str_nat 0) =
      Some (JObj [(''0'', JStr ''Bonjour'')])"
    by code_simp
  have r: "foldl (plan_entry (sample_lib True True) 0 (rederive_spans (hello_doc ! 0)))
      (\<lparr>ops = [], logs = []\<rparr>, []) [(''0'', JStr ''Bonjour'')] =
     (\<lparr>ops = [AddRedactAnnot 0 [10, 10, 50, 20] (1, 1, 1) True], logs = []\<rparr>,
      [\<lparr>a_bbox = [10, 10, 50, 20], a_font = ''Helvetica'', a_size = 12, a_color = 0,
        a_new_text = JStr ''Bonjour''\<rparr>])"
    by code_simp
  have c: "apply_redactions (sample_lib True True)
      (ops \<lparr>ops = [AddRedactAnnot 0 [10, 10, 50, 20] (1, 1, 1) True], logs = []\<rparr>) 0"
    by (simp add: sample_lib_def)
  from replacement_drawn_at_anchor_in_black [OF lp gt k r c] lp gt k r c
  show ?thesis by simp
qed

theorem page_key_matched_as_string_witness:
  "py_int 4300 ''+1'' = Some 1 \<and> ''+1'' \<noteq> str_nat (nat 1) \<and>
   apply_text_edits_to_pdf (sample_lib True True) ''in.pdf''
     (JObj ([(''0'', JObj [(''+1'', JStr ''new'')])] @
            (''+1'', JObj [(''0'', JStr ''Bonjour'')]) # [])) =
   apply_text_edits_to_pdf (sample_lib True True) ''in.pdf''
     (JObj ([(''0'', JObj [(''+1'', JStr ''new'')])] @ [])) \<and>
   insert_calls (ops (snd (apply_text_edits_to_pdf (sample_lib True True) ''in.pdf''
     (JObj ([(''0'', JObj [(''+1'', JStr ''new'')])] @
            (''+1'', JObj [(''0'', JStr ''Bonjour'')]) # []))))) =
     [(0, (60, 19), JStr ''new'', [], 0, (0, 0, 0))] \<and>
   fitz_open (sample_lib True True) ''in.pdf'' = Some hello_doc \<and>
   map_of [(''05'', JObj [(''0'', JStr ''a'')]), (''1'', JObj [(''0'', JStr ''b'')])] (str_nat 0) =
     map_of [(''1'', JObj [(''0'', JStr ''b'')]), ('' 0'', JObj [(''0'', JStr ''c'')])] (str_nat 0) \<and>
   map_of [(''05'', JObj [(''0'', JStr ''a'')]), (''1'', JObj [(''0'', JStr ''b'')])] (str_nat 1) =
     map_of [(''1'', JObj [(''0'', JStr ''b'')]), ('' 0'', JObj [(''0'', JStr ''c'')])] (str_nat 1) \<and>
   apply_text_edits_to_pdf (sample_lib True True) ''in.pdf''
     (JObj [(''05'', JObj [(''0'', JStr ''a'')]), (''1'', JObj [(''0'', JStr ''b'')])]) =
   apply_text_edits_to_pdf (sample_lib True True) ''in.pdf''
     (JObj [(''1'', JObj [(''0'', JStr ''b'')]), ('' 0'', JObj [(''0'', JStr ''c'')])])"
proof -
  let ?e1 = "[(''05'', JObj [(''0'', JStr ''a'')]), (''1'', JObj [(''0'', JStr ''b'')])]"
  let ?e2 = "[(''1'', JObj [(''0'', JStr ''b'')]), ('' 0'', JObj [(''0'', JStr ''c'')])]"
  have p: "py_int 4300 ''+1'' = Some 1" by (rule py_int_examples)
  have n: "''+1'' \<noteq> str_nat (nat 1)" by (simp add: str_nat_small)
  have o: "fitz_open (sample_lib True True) ''in.pdf'' = Some hello_doc"
    by (simp add: sample_lib_def)
  have k0: "map_of ?e1 (str_nat 0) = map_of ?e2 (str_nat 0)"
    by (simp add: str_nat_small)
  have k1: "map_of ?e1 (str_nat 1) = map_of ?e2 (str_nat 1)"
    by (simp add: str_nat_small)
  have k: "\<forall>i < length hello_doc. map_of ?e1 (str_nat i) = map_of ?e2 (str_nat i)"
  proof (intro allI impI)
    fix i assume "i < length hello_doc"
    then have "i = 0 \<or> i = 1" by (auto simp: hello_doc_def)
    with k0 k1 show "map_of ?e1 (str_nat i) = map_of ?e2 (str_nat i)"
      by auto
  qed
  note inst = page_key_matched_as_string [of "sample_lib True True" "''in.pdf''" ?e1 ?e2
      4300 "''+1''" 1 "[(''0'', JObj [(''+1'', JStr ''new'')])]" "JObj [(''0'', JStr ''Bonjour'')]" "[]"]
  from inst p n
  have a: "apply_text_edits_to_pdf (sample_lib True True) ''in.pdf''
     (JObj ([(''0'', JObj [(''+1'', JStr ''new'')])] @
            (''+1'', JObj [(''0'', JStr ''Bonjour'')]) # [])) =
   apply_text_edits_to_pdf (sample_lib True True) ''in.pdf''
     (JObj ([(''0'', JObj [(''+1'', JStr ''new'')])] @ []))"
    by blast
  from inst o k
  have b: "apply_text_edits_to_pdf (sample_lib True True) ''in.pdf'' (JObj ?e1) =
   apply_text_edits_to_pdf (sample_lib True True) ''in.pdf'' (JObj ?e2)"
    by blast
  have i: "insert_calls (ops (snd (apply_text_edits_to_pdf (sample_lib True True) ''in.pdf''
     (JObj ([(''0'', JObj [(''+1'', JStr ''new'')])] @ []))))) =
     [(0, (60, 19), JStr ''new'', [], 0, (0, 0, 0))]"
    by code_simp
  from p n a i o k0 k1 b show ?thesis by simp
qed

theorem json_round_trip_witness:
  "enc_model \<lparr>pages = [[\<lparr>f_text = ''Hello'', f_bbox = [10, 10, 50, 20], f_font = ''Helvetica'',
       f_size = 12, f_color = 0\<rparr>], []]\<rparr> =
     JObj [(''pages'',
       JArr [JArr [JObj [(''text'', JStr ''Hello''),
                         (''bbox'', JArr [JNum 10, JNum 10, JNum 50, JNum 20]),
                         (''font'', JStr ''Helvetica''), (''size'', JNum 12),
                         (''color'', JInt 0)]],
             JArr []])] \<and>
   dec_model (JObj [(''pages'',
       JArr [JArr [JObj [(''text'', JStr ''Hello''),
                         (''bbox'', JArr [JNum 10, JNum 10, JNum 50, JNum 20]),
                         (''font'', JStr ''Helvetica''), (''size'', JNum 12),
                         (''color'', JInt 0)]],
             JArr []])]) =
     Some \<lparr>pages = [[\<lparr>f_text = ''Hello'', f_bbox = [10, 10, 50, 20], f_font = ''Helvetica'',
       f_size = 12, f_color = 0\<rparr>], []]\<rparr>"
proof -
  have e: "enc_model \<lparr>pages = [[\<lparr>f_text = ''Hello'', f_bbox = [10, 10, 50, 20],
       f_font = ''Helvetica'', f_size = 12, f_color = 0\<rparr>], []]\<rparr> =
     JObj [(''pages'',
       JArr [JArr [JObj [(''text'', JStr ''Hello''),
                         (''bbox'', JArr [JNum 10, JNum 10, JNum 50, JNum 20]),
                         (''font'', JStr ''Helvetica''), (''size'', JNum 12),
                         (''color'', JInt 0)]],
             JArr []])]"
    by (simp add: enc_model_def enc_fragment_def)
  from json_round_trip [of "\<lparr>pages = [[\<lparr>f_text = ''Hello'', f_bbox = [10, 10, 50, 20],
       f_font = ''Helvetica'', f_size = 12, f_color = 0\<rparr>], []]\<rparr>"] e
  show ?thesis by simp
qed

end
